theory Spec2Isabelle
  imports Main "HOL-Library.Extended_Nat"
begin

section \<open>Strings and numbers of the host language\<close>

text \<open>
  A string is a list of code units below 256 (\<open>string\<close>, 8-bit characters read as
  Latin-1); code units from 256 on are outside the model. \<open>toLowerCase\<close> folds
  \<open>A\<close>..\<open>Z\<close> and the Latin-1 capitals \<open>0xC0\<close>..\<open>0xDE\<close> (not the sign \<open>0xD7\<close>); \<open>trim\<close> and the
  regular-expression class \<open>\s\<close> take the six ASCII white-space characters and the
  no-break space \<open>0xA0\<close>; \<open>\d\<close> is \<open>0\<close>..\<open>9\<close>. Under the flag \<open>i\<close> a letter of a pattern
  matches its two ASCII cases and nothing else below 256.
\<close>

definition upperAZ :: string where
  "upperAZ = ''ABCDEFGHIJKLMNOPQRSTUVWXYZ''"

definition lowerAZ :: string where
  "lowerAZ = ''abcdefghijklmnopqrstuvwxyz''"

definition upperLatin1 :: string where
  "upperLatin1 =
     [CHR 0xC0, CHR 0xC1, CHR 0xC2, CHR 0xC3, CHR 0xC4, CHR 0xC5, CHR 0xC6, CHR 0xC7,
      CHR 0xC8, CHR 0xC9, CHR 0xCA, CHR 0xCB, CHR 0xCC, CHR 0xCD, CHR 0xCE, CHR 0xCF,
      CHR 0xD0, CHR 0xD1, CHR 0xD2, CHR 0xD3, CHR 0xD4, CHR 0xD5, CHR 0xD6, CHR 0xD8,
      CHR 0xD9, CHR 0xDA, CHR 0xDB, CHR 0xDC, CHR 0xDD, CHR 0xDE]"

definition lowerLatin1 :: string where
  "lowerLatin1 =
     [CHR 0xE0, CHR 0xE1, CHR 0xE2, CHR 0xE3, CHR 0xE4, CHR 0xE5, CHR 0xE6, CHR 0xE7,
      CHR 0xE8, CHR 0xE9, CHR 0xEA, CHR 0xEB, CHR 0xEC, CHR 0xED, CHR 0xEE, CHR 0xEF,
      CHR 0xF0, CHR 0xF1, CHR 0xF2, CHR 0xF3, CHR 0xF4, CHR 0xF5, CHR 0xF6, CHR 0xF8,
      CHR 0xF9, CHR 0xFA, CHR 0xFB, CHR 0xFC, CHR 0xFD, CHR 0xFE]"

definition lowerChar :: "char \<Rightarrow> char" where
  "lowerChar c =
     (case map_of (zip (upperAZ @ upperLatin1) (lowerAZ @ lowerLatin1)) c of
        Some l \<Rightarrow> l
      | None \<Rightarrow> c)"

definition toLowerCase :: "string \<Rightarrow> string" where
  "toLowerCase s = map lowerChar s"

definition isSpace :: "char \<Rightarrow> bool" where
  "isSpace c =
     (c \<in> set [CHR '' '', CHR 0x09, CHR 0x0A, CHR 0x0B, CHR 0x0C, CHR 0x0D, CHR 0xA0])"

definition trim :: "string \<Rightarrow> string" where
  "trim s = rev (dropWhile isSpace (rev (dropWhile isSpace s)))"

text \<open>
  A satoshi amount or limit is a JavaScript \<open>number\<close>, a double. The model takes the
  doubles that are non-negative integers or \<open>Infinity\<close>, as values of \<open>enat\<close>; negative
  numbers, fractions and \<open>NaN\<close> are outside it. Time stamps (\<open>Date.now()\<close>,
  milliseconds) are \<open>int\<close>; every function that reads the clock takes the reading as
  an argument \<open>now\<close>.

  \<open>Number n\<close> is the double nearest to the integer \<open>n\<close>, ties to the even significand
  (53 bits), \<open>Infinity\<close> from \<open>2^1024\<close> on: the conversion \<open>Number(bigint)\<close>, and the
  rounding of every arithmetic result. The sum \<open>a + b\<close> of two numbers is the exact
  sum rounded that way.
\<close>

type_synonym sats = enat

fun bitLength :: "nat \<Rightarrow> nat" where
  "bitLength n = (if n = 0 then 0 else Suc (bitLength (n div 2)))"

declare bitLength.simps [simp del]

definition Number :: "nat \<Rightarrow> sats" where
  "Number n =
     (let e = bitLength n - 53;
          q = n div 2 ^ e;
          r = n mod 2 ^ e;
          q' = (if 2 * r > 2 ^ e \<or> (2 * r = 2 ^ e \<and> odd q) then q + 1 else q);
          v = q' * 2 ^ e
      in if v \<ge> 2 ^ 1024 then \<infinity> else enat v)"

definition addNumber :: "sats \<Rightarrow> sats \<Rightarrow> sats" where
  "addNumber a b = (case a + b of enat n \<Rightarrow> Number n | \<infinity> \<Rightarrow> \<infinity>)"

section \<open>Errors (errors.ts)\<close>

datatype L402Error =
    BudgetExceededError string sats sats sats
  | PaymentFailedError string "string option"
  | InvoiceExpiredError "string option"
  | ChallengeParseError string string
  | NoWalletError
  | DomainNotAllowedError string

section \<open>Budget controller (budget.ts)\<close>

record payment =
  timestamp :: int
  amount :: sats

record BudgetController =
  maxSatsPerRequest :: sats
  maxSatsPerHour :: sats
  maxSatsPerDay :: sats
  allowedDomains :: "string set option"
  payments :: "payment list"

text \<open>\<open>_prune(now)\<close>: shift entries off the front while the first one is older than 24 hours.\<close>

fun prune_loop :: "int \<Rightarrow> payment list \<Rightarrow> payment list" where
  "prune_loop cutoff [] = []"
| "prune_loop cutoff (p # ps) =
     (if timestamp p < cutoff then prune_loop cutoff ps else p # ps)"

definition prune :: "int \<Rightarrow> BudgetController \<Rightarrow> BudgetController" where
  "prune now b = b\<lparr>payments := prune_loop (now - 86400000) (payments b)\<rparr>"

text \<open>
  \<open>.filter((p) => p.timestamp >= since).reduce((sum, p) => sum + p.amount, 0)\<close>, every
  addition a double addition.
\<close>

definition spentSince :: "int \<Rightarrow> payment list \<Rightarrow> sats" where
  "spentSince since ps =
     foldl (\<lambda>sum p. addNumber sum (amount p)) 0 (filter (\<lambda>p. timestamp p \<ge> since) ps)"

text \<open>
  \<open>check(amountSats, domain?)\<close>. The result pairs what the call throws (\<open>Inl\<close>) or its
  normal return (\<open>Inr ()\<close>) with the controller after the call, since \<open>_prune\<close> mutates
  \<open>_payments\<close> before the hourly check. \<open>domain\<close> is \<open>None\<close> for an omitted argument; an
  omitted or empty domain is falsy. \<open>domainRejected\<close> is the guard of the first \<open>if\<close>:
  it yields the domain that \<open>DomainNotAllowedError\<close> is thrown with, if any.
\<close>

definition domainRejected :: "BudgetController \<Rightarrow> string option \<Rightarrow> string option" where
  "domainRejected b domain =
     (case allowedDomains b of
        None \<Rightarrow> None
      | Some allowed \<Rightarrow>
          (case domain of
             None \<Rightarrow> None
           | Some d \<Rightarrow>
               if d \<noteq> [] \<and> toLowerCase d \<notin> toLowerCase ` allowed then Some d else None))"

definition check ::
  "BudgetController \<Rightarrow> int \<Rightarrow> sats \<Rightarrow> string option \<Rightarrow> (L402Error + unit) \<times> BudgetController"
where
  "check b now amountSats domain =
     (case domainRejected b domain of
        Some d \<Rightarrow> (Inl (DomainNotAllowedError d), b)
      | None \<Rightarrow>
          if amountSats > maxSatsPerRequest b then
            (Inl (BudgetExceededError ''per_request'' (maxSatsPerRequest b) 0 amountSats), b)
          else
            let b' = prune now b;
                spentHour = spentSince (now - 3600000) (payments b')
            in if addNumber spentHour amountSats > maxSatsPerHour b' then
                 (Inl (BudgetExceededError ''per_hour'' (maxSatsPerHour b') spentHour amountSats), b')
               else
                 let spentDay = spentSince (now - 86400000) (payments b')
                 in if addNumber spentDay amountSats > maxSatsPerDay b' then
                      (Inl (BudgetExceededError ''per_day'' (maxSatsPerDay b') spentDay amountSats), b')
                    else (Inr (), b'))"

definition recordPayment :: "BudgetController \<Rightarrow> int \<Rightarrow> sats \<Rightarrow> BudgetController" where
  "recordPayment b now amountSats =
     b\<lparr>payments := payments b @ [\<lparr>timestamp = now, amount = amountSats\<rparr>]\<rparr>"

definition spentLastHour :: "BudgetController \<Rightarrow> int \<Rightarrow> sats \<times> BudgetController" where
  "spentLastHour b now =
     (let b' = prune now b in (spentSince (now - 3600000) (payments b'), b'))"

definition spentLastDay :: "BudgetController \<Rightarrow> int \<Rightarrow> sats \<times> BudgetController" where
  "spentLastDay b now =
     (let b' = prune now b in (spentSince (now - 86400000) (payments b'), b'))"

section \<open>Credential cache (credential-cache.ts)\<close>

text \<open>\<open>s.split(sep)\<close> for a one-character separator, and \<open>parts.join(sep)\<close>.\<close>

fun split :: "char \<Rightarrow> string \<Rightarrow> string list" where
  "split sep [] = [[]]"
| "split sep (c # cs) =
     (if c = sep then [] # split sep cs
      else (case split sep cs of
              [] \<Rightarrow> [[c]]
            | w # ws \<Rightarrow> (c # w) # ws))"

fun join :: "string \<Rightarrow> string list \<Rightarrow> string" where
  "join sep [] = []"
| "join sep [x] = x"
| "join sep (x # y # ys) = x @ sep @ join sep (y # ys)"

text \<open>\<open>path.split("/").filter(Boolean)\<close>: the non-empty path segments.\<close>

definition pathParts :: "string \<Rightarrow> string list" where
  "pathParts path = filter (\<lambda>s. s \<noteq> []) (split (CHR ''/'') path)"

definition cacheKey :: "string \<Rightarrow> string \<Rightarrow> string" where
  "cacheKey domain path =
     (let domain' = trim (toLowerCase domain);
          parts = pathParts path;
          prefix = (if length parts \<ge> 2 then ''/'' @ join ''/'' (take 2 parts)
                    else ''/'' @ join ''/'' parts)
      in domain' @ ''::'' @ prefix)"

record L402Credential =
  macaroon :: string
  preimage :: string
  createdAt :: int
  expiresAt :: "int option"

text \<open>
  A JavaScript \<open>Map\<close> is an association list in insertion order with distinct keys:
  \<open>set\<close> on a present key replaces the value in place, on an absent key appends;
  \<open>delete\<close> removes the key; \<open>keys().next().value\<close> is the key of the first entry.
\<close>

type_synonym ('k, 'v) Map = "('k \<times> 'v) list"

definition Map_get :: "('k, 'v) Map \<Rightarrow> 'k \<Rightarrow> 'v option" where
  "Map_get m k = map_of m k"

definition Map_delete :: "'k \<Rightarrow> ('k, 'v) Map \<Rightarrow> ('k, 'v) Map" where
  "Map_delete k m = filter (\<lambda>e. fst e \<noteq> k) m"

definition Map_set :: "'k \<Rightarrow> 'v \<Rightarrow> ('k, 'v) Map \<Rightarrow> ('k, 'v) Map" where
  "Map_set k v m =
     (if k \<in> fst ` set m then map (\<lambda>e. if fst e = k then (k, v) else e) m
      else m @ [(k, v)])"

record CredentialCache =
  maxSize :: int
  defaultTtlMs :: "int option"
  cache :: "(string, L402Credential) Map"

definition size_cache :: "CredentialCache \<Rightarrow> nat" where
  "size_cache c = length (cache c)"

definition get ::
  "CredentialCache \<Rightarrow> int \<Rightarrow> string \<Rightarrow> string \<Rightarrow> L402Credential option \<times> CredentialCache"
where
  "get c now domain path =
     (let key = cacheKey domain path in
      case Map_get (cache c) key of
        None \<Rightarrow> (None, c)
      | Some cred \<Rightarrow>
          (case expiresAt cred of
             Some ex \<Rightarrow>
               if now \<ge> ex then (None, c\<lparr>cache := Map_delete key (cache c)\<rparr>)
               else (Some cred, c\<lparr>cache := Map_set key cred (Map_delete key (cache c))\<rparr>)
           | None \<Rightarrow> (Some cred, c\<lparr>cache := Map_set key cred (Map_delete key (cache c))\<rparr>)))"

text \<open>
  The eviction loop \<open>while (size > maxSize) delete(keys().next().value)\<close>. When the map is
  empty and \<open>0 > maxSize\<close> the loop deletes \<open>undefined\<close> for ever: the result \<open>None\<close> stands
  for a call that does not return.
\<close>

function evict :: "int \<Rightarrow> ('k, 'v) Map \<Rightarrow> ('k, 'v) Map option" where
  "evict maxSz [] = (if 0 > maxSz then None else Some [])"
| "evict maxSz (e # es) =
     (if int (length (e # es)) > maxSz then evict maxSz (Map_delete (fst e) (e # es))
      else Some (e # es))"
  by pat_completeness auto
termination
  by (relation "measure (\<lambda>(maxSz, m). length m)")
     (auto simp add: Map_delete_def less_Suc_eq_le)

text \<open>
  \<open>put(domain, path, macaroon, preimage, expiresAt?)\<close>. The optional argument is \<open>None\<close>
  when omitted (\<open>undefined\<close>), \<open>Some None\<close> for \<open>null\<close> and \<open>Some (Some t)\<close> for a time.
  Both clock readings of the call are the one argument \<open>now\<close>.
\<close>

definition put ::
  "CredentialCache \<Rightarrow> int \<Rightarrow> string \<Rightarrow> string \<Rightarrow> string \<Rightarrow> string \<Rightarrow> int option option
     \<Rightarrow> (L402Credential \<times> CredentialCache) option"
where
  "put c now domain path mac pre expiresAtArg =
     (let key = cacheKey domain path;
          resolvedExpiresAt =
            (case expiresAtArg of
               Some ex \<Rightarrow> ex
             | None \<Rightarrow> (case defaultTtlMs c of Some ttl \<Rightarrow> Some (now + ttl) | None \<Rightarrow> None));
          cred = \<lparr>macaroon = mac, preimage = pre, createdAt = now, expiresAt = resolvedExpiresAt\<rparr>;
          m = Map_set key cred (Map_delete key (cache c))
      in case evict (maxSize c) m of
           None \<Rightarrow> None
         | Some m' \<Rightarrow> Some (cred, c\<lparr>cache := m'\<rparr>))"

definition authorizationHeader :: "L402Credential \<Rightarrow> string" where
  "authorizationHeader cred = ''L402 '' @ macaroon cred @ '':'' @ preimage cred"

definition clear :: "CredentialCache \<Rightarrow> CredentialCache" where
  "clear c = c\<lparr>cache := []\<rparr>"

section \<open>Invoice amount extraction (bolt11.ts)\<close>

text \<open>
  \<open>BOLT11_RE = /^ln(?<network>[a-z]+?)(?<amount>\d+)?(?<multiplier>[munp])?1/i\<close>, run
  as the backtracking matcher runs it: the lazy network takes the fewest letters first,
  the greedy amount the longest digit run first, the multiplier is tried before it is
  skipped. The result holds the two groups the caller reads.
\<close>

definition isDigit :: "char \<Rightarrow> bool" where
  "isDigit c = (c \<in> set ''0123456789'')"

definition isAlpha :: "char \<Rightarrow> bool" where
  "isAlpha c = (lowerChar c \<in> set lowerAZ)"

datatype multiplier = Milli | Micro | Nano | Pico

definition multiplierOf :: "char \<Rightarrow> multiplier option" where
  "multiplierOf c =
     map_of [(CHR ''m'', Milli), (CHR ''u'', Micro), (CHR ''n'', Nano), (CHR ''p'', Pico)]
       (lowerChar c)"

text \<open>\<open>(?<multiplier>[munp])?1\<close>\<close>

fun matchMultiplierOne :: "string \<Rightarrow> multiplier option option" where
  "matchMultiplierOne (c # d # rest) =
     (case multiplierOf c of
        Some m \<Rightarrow> if d = CHR ''1'' then Some (Some m) else None
      | None \<Rightarrow> if c = CHR ''1'' then Some None else None)"
| "matchMultiplierOne [c] = (if c = CHR ''1'' then Some None else None)"
| "matchMultiplierOne [] = None"

text \<open>\<open>(?<amount>\d+)?\<close> with at most \<open>j\<close> digits, then the rest; \<open>j = 0\<close> skips the group.\<close>

fun matchAmount :: "nat \<Rightarrow> string \<Rightarrow> (string option \<times> multiplier option) option" where
  "matchAmount 0 s =
     (case matchMultiplierOne s of Some m \<Rightarrow> Some (None, m) | None \<Rightarrow> None)"
| "matchAmount (Suc j) s =
     (case matchMultiplierOne (drop (Suc j) s) of
        Some m \<Rightarrow> Some (Some (take (Suc j) s), m)
      | None \<Rightarrow> matchAmount j s)"

definition matchAfterNetwork :: "string \<Rightarrow> (string option \<times> multiplier option) option" where
  "matchAfterNetwork s = matchAmount (length (takeWhile isDigit s)) s"

text \<open>\<open>[a-z]+?\<close>: one more letter of the network, then the rest, else a longer network.\<close>

fun matchNetwork :: "string \<Rightarrow> (string option \<times> multiplier option) option" where
  "matchNetwork [] = None"
| "matchNetwork (c # s) =
     (if isAlpha c then
        (case matchAfterNetwork s of Some g \<Rightarrow> Some g | None \<Rightarrow> matchNetwork s)
      else None)"

definition BOLT11_RE_exec :: "string \<Rightarrow> (string option \<times> multiplier option) option" where
  "BOLT11_RE_exec s =
     (case s of
        l # n # rest \<Rightarrow>
          if lowerChar l = CHR ''l'' \<and> lowerChar n = CHR ''n'' then matchNetwork rest else None
      | _ \<Rightarrow> None)"

text \<open>\<open>MULTIPLIERS\<close>: numerator and denominator of each scale; \<open>SATS_PER_BTC\<close>.\<close>

fun MULTIPLIERS :: "multiplier \<Rightarrow> nat \<times> nat" where
  "MULTIPLIERS Milli = (1, 1000)"
| "MULTIPLIERS Micro = (1, 1000000)"
| "MULTIPLIERS Nano = (1, 1000000000)"
| "MULTIPLIERS Pico = (1, 1000000000000)"

definition SATS_PER_BTC :: nat where
  "SATS_PER_BTC = 100000000"

text \<open>
  \<open>BigInt(amountStr)\<close> for a run of decimal digits. The parsed amount and everything
  computed from it are non-negative, so \<open>bigint\<close> values are \<open>nat\<close> here, and the
  truncating \<open>/\<close> is \<open>div\<close>.
\<close>

definition digitValue :: "char \<Rightarrow> nat" where
  "digitValue c = (case map_of (zip ''0123456789'' [0, 1, 2, 3, 4, 5, 6, 7, 8, 9]) c of Some v \<Rightarrow> v | None \<Rightarrow> 0)"

definition BigInt :: "string \<Rightarrow> nat" where
  "BigInt ds = foldl (\<lambda>acc c. 10 * acc + digitValue c) 0 ds"

definition extractAmountSats :: "string \<Rightarrow> sats option" where
  "extractAmountSats bolt11 =
     (if bolt11 = [] then None
      else
        let invoice = toLowerCase (trim bolt11) in
        case BOLT11_RE_exec invoice of
          None \<Rightarrow> None
        | Some (None, multiplier) \<Rightarrow> None
        | Some (Some amountStr, multiplier) \<Rightarrow>
            let amount = BigInt amountStr in
            (case multiplier of
               Some mu \<Rightarrow>
                 (case MULTIPLIERS mu of
                    (num, denom) \<Rightarrow> Some (Number ((amount * SATS_PER_BTC * num) div denom)))
             | None \<Rightarrow> Some (Number (amount * SATS_PER_BTC))))"

section \<open>Challenge parsing (challenge.ts)\<close>

record L402Challenge =
  challenge_macaroon :: string
  challenge_invoice :: string

text \<open>
  A literal of a case-insensitive pattern, given in lower case, at the front of the
  subject: the rest of the subject after it.
\<close>

definition matchLiteral :: "string \<Rightarrow> string \<Rightarrow> string option" where
  "matchLiteral lit s =
     (if length lit \<le> length s \<and> toLowerCase (take (length lit) s) = lit
      then Some (drop (length lit) s) else None)"

text \<open>\<open>(?:L402|LSAT)\s+macaroon=\<close>, the common front of both patterns.\<close>

definition matchScheme :: "string \<Rightarrow> string option" where
  "matchScheme s =
     (case (case matchLiteral ''l402'' s of Some r \<Rightarrow> Some r | None \<Rightarrow> matchLiteral ''lsat'' s) of
        None \<Rightarrow> None
      | Some r \<Rightarrow>
          if takeWhile isSpace r = [] then None
          else matchLiteral ''macaroon='' (dropWhile isSpace r))"

text \<open>\<open>"(?<name>[^"]+)"\<close>: a quoted, non-empty value and the rest after the closing quote.\<close>

definition matchQuoted :: "string \<Rightarrow> (string \<times> string) option" where
  "matchQuoted s =
     (case s of
        [] \<Rightarrow> None
      | q # r \<Rightarrow>
          if q \<noteq> CHR 0x22 then None
          else
            let v = takeWhile (\<lambda>c. c \<noteq> CHR 0x22) r in
            (case dropWhile (\<lambda>c. c \<noteq> CHR 0x22) r of
               [] \<Rightarrow> None
             | q' # rest \<Rightarrow> if v = [] then None else Some (v, rest)))"

text \<open>
  \<open>CHALLENGE_RE\<close> tried at the front of the subject. Every quantifier of the pattern is
  followed by a character outside its class, so no backtracking happens inside it.
\<close>

definition matchChallengeAt :: "string \<Rightarrow> (string \<times> string) option" where
  "matchChallengeAt s =
     (case matchScheme s of
        None \<Rightarrow> None
      | Some r1 \<Rightarrow>
          (case matchQuoted r1 of
             None \<Rightarrow> None
           | Some (mac, r2) \<Rightarrow>
               (case dropWhile isSpace r2 of
                  [] \<Rightarrow> None
                | c # r3 \<Rightarrow>
                    if c \<noteq> CHR '','' then None
                    else
                      (case matchLiteral ''invoice='' (dropWhile isSpace r3) of
                         None \<Rightarrow> None
                       | Some r4 \<Rightarrow>
                           (case matchQuoted r4 of
                              None \<Rightarrow> None
                            | Some (invoice, r5) \<Rightarrow> Some (mac, invoice))))))"

text \<open>\<open>[^\s,]\<close>\<close>

definition isBare :: "char \<Rightarrow> bool" where
  "isBare c = (\<not> isSpace c \<and> c \<noteq> CHR '','')"

text \<open>\<open>\s*,?\s*invoice=(?<invoice>[^\s,]+)\<close>, the part after the unquoted macaroon.\<close>

definition matchBareInvoice :: "string \<Rightarrow> string option" where
  "matchBareInvoice s =
     (let s1 = dropWhile isSpace s;
          s2 = (case s1 of [] \<Rightarrow> s1 | c # r \<Rightarrow> if c = CHR '','' then r else s1);
          s3 = dropWhile isSpace s2
      in case matchLiteral ''invoice='' s3 of
           None \<Rightarrow> None
         | Some s4 \<Rightarrow> if takeWhile isBare s4 = [] then None else Some (takeWhile isBare s4))"

text \<open>
  \<open>(?<macaroon>[^\s,]+)\<close> is greedy: the longest macaroon is tried first and is
  shortened character by character until the rest of the pattern matches.
\<close>

fun matchBareMacaroon :: "nat \<Rightarrow> string \<Rightarrow> (string \<times> string) option" where
  "matchBareMacaroon 0 s = None"
| "matchBareMacaroon (Suc j) s =
     (case matchBareInvoice (drop (Suc j) s) of
        Some invoice \<Rightarrow> Some (take (Suc j) s, invoice)
      | None \<Rightarrow> matchBareMacaroon j s)"

definition matchNoQuoteAt :: "string \<Rightarrow> (string \<times> string) option" where
  "matchNoQuoteAt s =
     (case matchScheme s of
        None \<Rightarrow> None
      | Some r \<Rightarrow> matchBareMacaroon (length (takeWhile isBare r)) r)"

text \<open>\<open>re.exec(subject)\<close> for an unanchored pattern: the leftmost start that matches.\<close>

fun searchFrom :: "(string \<Rightarrow> 'a option) \<Rightarrow> string \<Rightarrow> 'a option" where
  "searchFrom p [] = p []"
| "searchFrom p (c # cs) =
     (case p (c # cs) of Some r \<Rightarrow> Some r | None \<Rightarrow> searchFrom p cs)"

definition CHALLENGE_RE_exec :: "string \<Rightarrow> (string \<times> string) option" where
  "CHALLENGE_RE_exec header = searchFrom matchChallengeAt header"

definition CHALLENGE_NOQUOTE_RE_exec :: "string \<Rightarrow> (string \<times> string) option" where
  "CHALLENGE_NOQUOTE_RE_exec header = searchFrom matchNoQuoteAt header"

definition parseChallenge :: "string \<Rightarrow> L402Error + L402Challenge" where
  "parseChallenge header =
     (if header = [] then Inl (ChallengeParseError header ''empty header'')
      else
        case (case CHALLENGE_RE_exec header of
                Some m \<Rightarrow> Some m
              | None \<Rightarrow> CHALLENGE_NOQUOTE_RE_exec header) of
          None \<Rightarrow> Inl (ChallengeParseError header ''no L402/LSAT challenge found'')
        | Some (mac, invoice) \<Rightarrow>
            if trim mac = [] then Inl (ChallengeParseError header ''empty macaroon'')
            else if trim invoice = [] then Inl (ChallengeParseError header ''empty invoice'')
            else Inr \<lparr>challenge_macaroon = trim mac, challenge_invoice = trim invoice\<rparr>)"

text \<open>
  The argument of \<open>findL402Challenge\<close> is a \<open>Headers\<close> object or a plain record, both
  given by their entries; \<open>wwwAuthenticate\<close> is the lookup that opens the function. \<open>Headers.get\<close> compares names without case and joins the values
  of a repeated name with a comma and a space; the loop over a record lets a later entry
  overwrite an earlier one of the same lower-cased name.
\<close>

datatype HeadersArg = HeadersObject "(string \<times> string) list" | PlainRecord "(string \<times> string) list"

definition Headers_get :: "(string \<times> string) list \<Rightarrow> string \<Rightarrow> string option" where
  "Headers_get hs name =
     (let vs = map snd (filter (\<lambda>e. toLowerCase (fst e) = toLowerCase name) hs)
      in if vs = [] then None else Some (join '', '' vs))"

definition wwwAuthenticate :: "HeadersArg \<Rightarrow> string option" where
  "wwwAuthenticate hdrs =
     (case hdrs of
        HeadersObject hs \<Rightarrow> Headers_get hs ''www-authenticate''
      | PlainRecord kvs \<Rightarrow>
          map_of (rev (map (\<lambda>e. (toLowerCase (fst e), snd e)) kvs)) ''www-authenticate'')"

definition findL402Challenge :: "HeadersArg \<Rightarrow> L402Challenge option" where
  "findL402Challenge hdrs =
     (case wwwAuthenticate hdrs of
        None \<Rightarrow> None
      | Some wwwAuth \<Rightarrow>
          if wwwAuth = [] then None
          else (case parseChallenge wwwAuth of Inr ch \<Rightarrow> Some ch | Inl err \<Rightarrow> None))"

section \<open>Spending log (spending-log.ts)\<close>

record PaymentRecord =
  record_domain :: string
  record_path :: string
  record_amountSats :: sats
  record_preimage :: string
  record_timestamp :: int
  record_success :: bool

definition record_entry ::
  "PaymentRecord list \<Rightarrow> int \<Rightarrow> string \<Rightarrow> string \<Rightarrow> sats \<Rightarrow> string \<Rightarrow> bool \<Rightarrow> PaymentRecord list"
where
  "record_entry records now domain path amountSats pre success =
     records @ [\<lparr>record_domain = domain, record_path = path, record_amountSats = amountSats,
                 record_preimage = pre, record_timestamp = now, record_success = success\<rparr>]"

section \<open>The client (client.ts)\<close>

text \<open>
  What a call can throw: one of the library's own errors, or anything else, kept by the
  message the client reads from it (\<open>String(e instanceof Error ? e.message : e)\<close>).
\<close>

datatype thrown = L402 L402Error | Other string

type_synonym Wallet = "string \<Rightarrow> thrown + string"

record RequestInit =
  requestMethod :: "string option"
  headers :: "(string \<times> string) list option"
  body :: "string option"

record Request =
  request_url :: string
  request_init :: RequestInit

record Response =
  status :: int
  response_headers :: "(string \<times> string) list"
  response_body :: string

record URL =
  href :: string
  hostname :: string
  pathname :: string

record L402Client =
  wallet :: "Wallet option"
  budget :: "BudgetController option"
  credentialCache :: CredentialCache
  fetchOptions :: RequestInit
  spendingLog :: "PaymentRecord list"

text \<open>
  The world outside the client: \<open>globalThis.fetch\<close> (its answer may depend on how many
  calls came before), wallet auto-detection, and the clock readings of one \<open>fetch\<close>.
\<close>

record World =
  globalFetch :: "nat \<Rightarrow> Request \<Rightarrow> thrown + Response"
  autoDetectWallet :: "thrown + Wallet"
  nowCacheGet :: int
  nowCheck :: int
  nowPaid :: int
  nowCachePut :: int

datatype event = HttpCall Request | PayInvoice string

text \<open>\<open>{ ...this._fetchOptions, ...init }\<close>, \<open>new Headers(h)\<close> and \<open>headers.set(name, value)\<close>.\<close>

definition mergeInit :: "RequestInit \<Rightarrow> RequestInit \<Rightarrow> RequestInit" where
  "mergeInit defaults init =
     \<lparr>requestMethod =
        (case requestMethod init of Some m \<Rightarrow> Some m | None \<Rightarrow> requestMethod defaults),
      headers = (case headers init of Some h \<Rightarrow> Some h | None \<Rightarrow> headers defaults),
      body = (case body init of Some b \<Rightarrow> Some b | None \<Rightarrow> body defaults)\<rparr>"

definition Headers_new :: "(string \<times> string) list option \<Rightarrow> (string \<times> string) list" where
  "Headers_new h = (case h of None \<Rightarrow> [] | Some hs \<Rightarrow> map (\<lambda>e. (toLowerCase (fst e), snd e)) hs)"

definition Headers_set :: "string \<Rightarrow> string \<Rightarrow> (string \<times> string) list \<Rightarrow> (string \<times> string) list" where
  "Headers_set name v hs =
     filter (\<lambda>e. fst e \<noteq> toLowerCase name) hs @ [(toLowerCase name, v)]"

text \<open>
  \<open>fetch(url, init)\<close> up to the first send: the cache lookup and the request that goes
  out. The URL arrives parsed; a request body is already in its buffered form.
\<close>

definition cacheLookup ::
  "World \<Rightarrow> L402Client \<Rightarrow> URL \<Rightarrow> L402Credential option \<times> CredentialCache" where
  "cacheLookup w cl parsed = get (credentialCache cl) (nowCacheGet w) (hostname parsed) (pathname parsed)"

definition firstRequest :: "World \<Rightarrow> L402Client \<Rightarrow> URL \<Rightarrow> RequestInit \<Rightarrow> Request" where
  "firstRequest w cl parsed init =
     (let mergedInit = mergeInit (fetchOptions cl) init;
          hdrs = Headers_new (headers mergedInit);
          bodyBuffer = body mergedInit;
          hdrs' = (case fst (cacheLookup w cl parsed) of
                     Some cachedCred \<Rightarrow>
                       Headers_set ''Authorization'' (authorizationHeader cachedCred) hdrs
                   | None \<Rightarrow> hdrs)
      in \<lparr>request_url = href parsed,
          request_init = mergedInit\<lparr>headers := Some hdrs', body := bodyBuffer\<rparr>\<rparr>)"

text \<open>
  The rest of \<open>fetch\<close> once a challenge was found: budget check, payment, bookkeeping,
  caching, retry. The result is \<open>None\<close> when the call does not return (see \<open>evict\<close>);
  otherwise it holds what the call throws or returns, the client afterwards, and the
  calls made to \<open>globalThis.fetch\<close> and to the wallet, in order.
\<close>

definition payAndRetry ::
  "World \<Rightarrow> L402Client \<Rightarrow> URL \<Rightarrow> RequestInit \<Rightarrow> Request \<Rightarrow> L402Challenge
     \<Rightarrow> ((thrown + Response) \<times> L402Client \<times> event list) option"
where
  "payAndRetry w cl parsed init req1 challenge =
     (let domain = hostname parsed;
          mergedInit = mergeInit (fetchOptions cl) init;
          amountSats = extractAmountSats (challenge_invoice challenge);
          checked =
            (case budget cl of
               None \<Rightarrow> (Inr (), None)
             | Some b \<Rightarrow>
                 (case amountSats of
                    None \<Rightarrow> (Inr (), Some b)
                  | Some a \<Rightarrow>
                      (case check b (nowCheck w) a (Some domain) of (r, b') \<Rightarrow> (r, Some b'))));
          cl2 = cl\<lparr>budget := snd checked\<rparr>
      in case fst checked of
           Inl e \<Rightarrow> Some (Inl (L402 e), cl2, [HttpCall req1])
         | Inr u \<Rightarrow>
             (case (case wallet cl2 of Some wl \<Rightarrow> Inr wl | None \<Rightarrow> autoDetectWallet w) of
                Inl e \<Rightarrow> Some (Inl e, cl2, [HttpCall req1])
              | Inr wl \<Rightarrow>
                  let cl3 = cl2\<lparr>wallet := Some wl\<rparr> in
                  (case wl (challenge_invoice challenge) of
                     Inl e \<Rightarrow>
                       let cl4 =
                             (case amountSats of
                                None \<Rightarrow> cl3
                              | Some a \<Rightarrow>
                                  cl3\<lparr>spendingLog :=
                                    record_entry (spendingLog cl3) (nowPaid w) domain
                                      (pathname parsed) a [] False\<rparr>);
                           err =
                             (case e of
                                L402 le \<Rightarrow> L402 le
                              | Other msg \<Rightarrow>
                                  L402 (PaymentFailedError msg (Some (challenge_invoice challenge))))
                       in Some (Inl err, cl4,
                                [HttpCall req1, PayInvoice (challenge_invoice challenge)])
                   | Inr pre \<Rightarrow>
                       let cl4 =
                             (case amountSats of
                                None \<Rightarrow> cl3
                              | Some a \<Rightarrow>
                                  cl3\<lparr>budget :=
                                        (case budget cl3 of
                                           None \<Rightarrow> None
                                         | Some b \<Rightarrow> Some (recordPayment b (nowPaid w) a)),
                                      spendingLog :=
                                        record_entry (spendingLog cl3) (nowPaid w) domain
                                          (pathname parsed) a pre True\<rparr>)
                       in (case put (credentialCache cl4) (nowCachePut w) domain (pathname parsed)
                                  (challenge_macaroon challenge) pre None of
                             None \<Rightarrow> None
                           | Some (cred, cache') \<Rightarrow>
                               let cl5 = cl4\<lparr>credentialCache := cache'\<rparr>;
                                   retryHeaders =
                                     Headers_set ''Authorization''
                                       (''L402 '' @ challenge_macaroon challenge @ '':'' @ pre)
                                       (Headers_new (headers mergedInit));
                                   req2 =
                                     \<lparr>request_url = href parsed,
                                      request_init =
                                        mergedInit\<lparr>headers := Some retryHeaders,
                                                   body := body mergedInit\<rparr>\<rparr>;
                                   calls = [HttpCall req1,
                                            PayInvoice (challenge_invoice challenge),
                                            HttpCall req2]
                               in (case globalFetch w 1 req2 of
                                     Inl e \<Rightarrow> Some (Inl e, cl5, calls)
                                   | Inr retryResponse \<Rightarrow> Some (Inr retryResponse, cl5, calls))))))"

definition fetch ::
  "World \<Rightarrow> L402Client \<Rightarrow> URL \<Rightarrow> RequestInit
     \<Rightarrow> ((thrown + Response) \<times> L402Client \<times> event list) option"
where
  "fetch w cl parsed init =
     (let req1 = firstRequest w cl parsed init;
          cl1 = cl\<lparr>credentialCache := snd (cacheLookup w cl parsed)\<rparr>
      in case globalFetch w 0 req1 of
           Inl e \<Rightarrow> Some (Inl e, cl1, [HttpCall req1])
         | Inr response \<Rightarrow>
             if status response \<noteq> 402 then Some (Inr response, cl1, [HttpCall req1])
             else
               (case findL402Challenge (HeadersObject (response_headers response)) of
                  None \<Rightarrow> Some (Inr response, cl1, [HttpCall req1])
                | Some challenge \<Rightarrow> payAndRetry w cl1 parsed init req1 challenge))"

section \<open>Reference definitions and example states\<close>

text \<open>
  The hourly sum as the specification words it: the recorded amounts whose time stamp
  lies in the half-open interval \<open>(t - 3,600,000, t]\<close>.
\<close>

definition spec_spentLastHour :: "int \<Rightarrow> payment list \<Rightarrow> sats" where
  "spec_spentLastHour t ps =
     sum_list (map amount (filter (\<lambda>p. t - 3600000 < timestamp p \<and> timestamp p \<le> t) ps))"

text \<open>The sum of a list of numbers as \<open>reduce\<close> adds it, left to right from \<open>0\<close>, in doubles.\<close>

definition doubleSum :: "sats list \<Rightarrow> sats" where
  "doubleSum xs = foldl addNumber 0 xs"

definition budgetOld :: BudgetController where
  "budgetOld = \<lparr>maxSatsPerRequest = 1000, maxSatsPerHour = 10000, maxSatsPerDay = 50000,
     allowedDomains = None,
     payments = [\<lparr>timestamp = 0, amount = 100\<rparr>, \<lparr>timestamp = 86400000, amount = 10000\<rparr>]\<rparr>"

definition budgetEdge :: BudgetController where
  "budgetEdge = \<lparr>maxSatsPerRequest = 1000, maxSatsPerHour = 10000, maxSatsPerDay = 50000,
     allowedDomains = None, payments = [\<lparr>timestamp = 0, amount = 5\<rparr>]\<rparr>"

definition budgetBig :: BudgetController where
  "budgetBig = \<lparr>maxSatsPerRequest = 1000, maxSatsPerHour = 10000, maxSatsPerDay = 50000,
     allowedDomains = None,
     payments = [\<lparr>timestamp = 0, amount = 9007199254740992\<rparr>, \<lparr>timestamp = 0, amount = 1\<rparr>]\<rparr>"

definition budgetRound :: BudgetController where
  "budgetRound = \<lparr>maxSatsPerRequest = 1000, maxSatsPerHour = 9007199254741000,
     maxSatsPerDay = \<infinity>, allowedDomains = None,
     payments = [\<lparr>timestamp = 0, amount = 9007199254740994\<rparr>, \<lparr>timestamp = 0, amount = 1\<rparr>,
                 \<lparr>timestamp = 0, amount = 3\<rparr>]\<rparr>"

definition budgetTwo :: BudgetController where
  "budgetTwo = \<lparr>maxSatsPerRequest = 1000, maxSatsPerHour = 10000, maxSatsPerDay = 50000,
     allowedDomains = None,
     payments = [\<lparr>timestamp = 0, amount = 500\<rparr>, \<lparr>timestamp = 7200000, amount = 300\<rparr>]\<rparr>"

definition budgetAllow :: BudgetController where
  "budgetAllow = \<lparr>maxSatsPerRequest = 1000, maxSatsPerHour = 10000, maxSatsPerDay = 50000,
     allowedDomains = Some {''api.example.com''}, payments = []\<rparr>"

definition budgetExact :: BudgetController where
  "budgetExact = \<lparr>maxSatsPerRequest = 1000, maxSatsPerHour = 1500, maxSatsPerDay = 2000,
     allowedDomains = None,
     payments = [\<lparr>timestamp = 0, amount = 500\<rparr>, \<lparr>timestamp = 7200000, amount = 500\<rparr>]\<rparr>"

text \<open>
  The satoshi amount as the specification words it: the digits times 100,000,000 times
  the scale numerator, divided by the scale denominator, fractions discarded. The
  scales are milli = 1/1000, micro = 1/10^6, nano = 1/10^9, pico = 1/10^12, and 1/1
  without a multiplier.
\<close>

definition spec_scale :: "multiplier option \<Rightarrow> nat \<times> nat" where
  "spec_scale mu =
     (case mu of
        None \<Rightarrow> (1, 1)
      | Some Milli \<Rightarrow> (1, 1000)
      | Some Micro \<Rightarrow> (1, 1000000)
      | Some Nano \<Rightarrow> (1, 1000000000)
      | Some Pico \<Rightarrow> (1, 1000000000000))"

definition spec_sats :: "nat \<Rightarrow> multiplier option \<Rightarrow> nat" where
  "spec_sats digits mu = (digits * 100000000 * fst (spec_scale mu)) div snd (spec_scale mu)"

text \<open>The letter of a multiplier, and the text of an optional multiplier in an invoice.\<close>

fun multiplierLetter :: "multiplier \<Rightarrow> char" where
  "multiplierLetter Milli = CHR ''m''"
| "multiplierLetter Micro = CHR ''u''"
| "multiplierLetter Nano = CHR ''n''"
| "multiplierLetter Pico = CHR ''p''"

definition multiplierText :: "multiplier option \<Rightarrow> string" where
  "multiplierText mu = (case mu of None \<Rightarrow> [] | Some m \<Rightarrow> [multiplierLetter m])"

definition cacheTwo :: CredentialCache where
  "cacheTwo = \<lparr>maxSize = 2, defaultTtlMs = Some 3600000, cache = []\<rparr>"

definition cacheZero :: CredentialCache where
  "cacheZero = \<lparr>maxSize = 0, defaultTtlMs = Some 3600000, cache = []\<rparr>"

definition credA :: L402Credential where
  "credA = \<lparr>macaroon = ''mac1'', preimage = ''pre1'', createdAt = 0, expiresAt = Some 3600000\<rparr>"

definition credB :: L402Credential where
  "credB = \<lparr>macaroon = ''mac2'', preimage = ''pre2'', createdAt = 0, expiresAt = Some 3600000\<rparr>"

definition cacheAB :: CredentialCache where
  "cacheAB = cacheTwo\<lparr>cache := [(''a.com::/x'', credA), (''b.com::/x'', credB)]\<rparr>"

text \<open>
  A sequence of calls on one cache, together with the log of accesses it makes: a \<open>put\<close>
  logs its key, a \<open>get\<close> logs its key when it returns the credential. The result is \<open>None\<close>
  when a call does not return.
\<close>

datatype cacheOp =
    GetOp int string string
  | PutOp int string string string string "int option option"

fun applyOp :: "CredentialCache \<times> string list \<Rightarrow> cacheOp \<Rightarrow> (CredentialCache \<times> string list) option"
where
  "applyOp (c, h) (GetOp now domain path) =
     (case get c now domain path of
        (None, c') \<Rightarrow> Some (c', h)
      | (Some cred, c') \<Rightarrow> Some (c', h @ [cacheKey domain path]))"
| "applyOp (c, h) (PutOp now domain path mac pre expiresAtArg) =
     (case put c now domain path mac pre expiresAtArg of
        None \<Rightarrow> None
      | Some (cred, c') \<Rightarrow> Some (c', h @ [cacheKey domain path]))"

fun runOps :: "CredentialCache \<times> string list \<Rightarrow> cacheOp list \<Rightarrow> (CredentialCache \<times> string list) option"
where
  "runOps s [] = Some s"
| "runOps s (x # xs) = (case applyOp s x of None \<Rightarrow> None | Some s' \<Rightarrow> runOps s' xs)"

text \<open>The entries of a map are in the order of the last access to their keys in a log.\<close>

definition lastAccessOrder :: "('k \<times> 'v) list \<Rightarrow> 'k list \<Rightarrow> bool" where
  "lastAccessOrder m h = (map fst m = filter (\<lambda>k. k \<in> fst ` set m) (remdups h))"

definition cacheThree :: CredentialCache where
  "cacheThree = \<lparr>maxSize = 3, defaultTtlMs = None, cache = []\<rparr>"

definition opsABC :: "cacheOp list" where
  "opsABC = [PutOp 0 ''a'' ''/x'' ''m1'' ''p1'' None, PutOp 1 ''b'' ''/x'' ''m2'' ''p2'' None,
             PutOp 2 ''c'' ''/x'' ''m3'' ''p3'' None, GetOp 3 ''b'' ''/x'', GetOp 4 ''a'' ''/x'']"

definition credOf :: "string \<Rightarrow> string \<Rightarrow> int \<Rightarrow> L402Credential" where
  "credOf mac pre t = \<lparr>macaroon = mac, preimage = pre, createdAt = t, expiresAt = None\<rparr>"

definition response402Plain :: Response where
  "response402Plain =
     \<lparr>status = 402, response_headers = [(''www-authenticate'', ''Bearer token=abc'')],
      response_body = ''Payment Required''\<rparr>"

definition response402L402 :: Response where
  "response402L402 =
     \<lparr>status = 402,
      response_headers =
        [(''www-authenticate'', ''L402 macaroon=\"mac123\", invoice=\"lnbc10u1ptest\"'')],
      response_body = ''Payment Required''\<rparr>"

definition response200 :: Response where
  "response200 = \<lparr>status = 200, response_headers = [], response_body = ''ok''\<rparr>"

definition worldPlain :: World where
  "worldPlain =
     \<lparr>globalFetch = (\<lambda>n req. Inr response402Plain),
      autoDetectWallet = Inl (L402 NoWalletError),
      nowCacheGet = 0, nowCheck = 0, nowPaid = 0, nowCachePut = 0\<rparr>"

definition worldL402 :: World where
  "worldL402 =
     \<lparr>globalFetch = (\<lambda>n req. if n = 0 then Inr response402L402 else Inr response200),
      autoDetectWallet = Inl (L402 NoWalletError),
      nowCacheGet = 0, nowCheck = 0, nowPaid = 0, nowCachePut = 0\<rparr>"

definition initEmpty :: RequestInit where
  "initEmpty = \<lparr>requestMethod = None, headers = None, body = None\<rparr>"

definition clientTight :: L402Client where
  "clientTight =
     \<lparr>wallet = Some (\<lambda>invoice. Inr ''abc123preimage''),
      budget = Some \<lparr>maxSatsPerRequest = 500, maxSatsPerHour = 10000, maxSatsPerDay = 50000,
                      allowedDomains = None, payments = []\<rparr>,
      credentialCache = \<lparr>maxSize = 256, defaultTtlMs = Some 3600000, cache = []\<rparr>,
      fetchOptions = initEmpty,
      spendingLog = []\<rparr>"

definition urlExpensive :: URL where
  "urlExpensive =
     \<lparr>href = ''https://api.example.com/expensive'', hostname = ''api.example.com'',
      pathname = ''/expensive''\<rparr>"

section \<open>Evaluation of strings\<close>

lemmas string_eval = toLowerCase_def lowerChar_def upperAZ_def lowerAZ_def upperLatin1_def
  lowerLatin1_def trim_def isSpace_def

section \<open>Numbers: lemmas\<close>

text \<open>\<open>Number\<close> is the identity up to \<open>2^53\<close>.\<close>

lemma bitLength_le: "n < 2 ^ k \<Longrightarrow> bitLength n \<le> k"
proof (induction k arbitrary: n)
  case 0
  then show ?case by (simp add: bitLength.simps)
next
  case (Suc k)
  show ?case
  proof (cases "n = 0")
    case True
    then show ?thesis by (simp add: bitLength.simps)
  next
    case False
    from Suc.prems have "n div 2 < 2 ^ k" by simp
    then have "bitLength (n div 2) \<le> k" by (rule Suc.IH)
    with False show ?thesis by (subst bitLength.simps) simp
  qed
qed

lemma bitLength_power: "bitLength (2 ^ k) = Suc k"
proof (induction k)
  case 0
  show ?case by (simp add: bitLength.simps)
next
  case (Suc k)
  have "bitLength (2 ^ Suc k) = Suc (bitLength (2 ^ Suc k div 2))"
    by (subst bitLength.simps) simp
  with Suc show ?case by simp
qed

lemma Number_exact: "n \<le> 2 ^ 53 \<Longrightarrow> Number n = enat n"
proof (cases "n = 2 ^ 53")
  case True
  have "bitLength n - 53 = 1" using True bitLength_power [of 53] by simp
  then show ?thesis using True by (simp add: Number_def Let_def)
next
  case False
  assume "n \<le> 2 ^ 53"
  with False have "n < 2 ^ 53" by simp
  then have "bitLength n - 53 = 0" using bitLength_le [of n 53] by simp
  moreover have "n < 2 ^ 1024"
    using \<open>n < 2 ^ 53\<close> by (rule less_le_trans) simp
  ultimately show ?thesis by (simp add: Number_def Let_def)
qed


lemma addNumber_enat: "addNumber (enat m) (enat n) = Number (m + n)"
  by (simp add: addNumber_def)

lemmas enat_eval = numeral_eq_enat one_enat_def zero_enat_def

lemma addNumber_exact: "a + b \<le> enat (2 ^ 53) \<Longrightarrow> addNumber a b = a + b"
  by (cases "a + b") (auto simp add: addNumber_def Number_exact)

lemma addNumber_small: "a + b \<le> 9007199254740992 \<Longrightarrow> addNumber a b = a + b"
  by (rule addNumber_exact) (simp add: numeral_eq_enat)

lemma addNumber_infinity: "addNumber a \<infinity> = \<infinity>" "addNumber \<infinity> b = \<infinity>"
  by (simp_all add: addNumber_def)

section \<open>The budget controller: lemmas\<close>

lemma foldl_addNumber_exact:
  "a + sum_list xs \<le> enat (2 ^ 53) \<Longrightarrow> foldl addNumber a xs = a + sum_list xs"
proof (induction xs arbitrary: a)
  case Nil
  then show ?case by simp
next
  case (Cons x xs)
  have "a + x \<le> a + sum_list (x # xs)"
    by (simp add: add_left_mono le_iff_add)
  from this Cons.prems have ax: "a + x \<le> enat (2 ^ 53)" by (rule order_trans)
  have "foldl addNumber (a + x) xs = a + x + sum_list xs"
    using Cons.prems by (intro Cons.IH) (simp add: add.assoc)
  then show ?case by (simp add: addNumber_exact [OF ax] add.assoc)
qed

lemma doubleSum_exact: "sum_list xs \<le> enat (2 ^ 53) \<Longrightarrow> doubleSum xs = sum_list xs"
  using foldl_addNumber_exact [of 0 xs] by (simp add: doubleSum_def)

lemma spentSince_doubleSum:
  "spentSince since ps = doubleSum (map amount (filter (\<lambda>p. since \<le> timestamp p) ps))"
  by (simp add: spentSince_def doubleSum_def foldl_map)

lemma sum_filter_mono:
  "(\<And>p. P p \<Longrightarrow> Q p) \<Longrightarrow>
   sum_list (map amount (filter P ps)) \<le> sum_list (map amount (filter Q ps) :: sats list)"
proof (induction ps)
  case Nil
  show ?case by simp
next
  case (Cons p ps)
  then have ih: "sum_list (map amount (filter P ps)) \<le> sum_list (map amount (filter Q ps))"
    by simp
  then have "sum_list (map amount (filter P ps)) \<le> amount p + sum_list (map amount (filter Q ps))"
    by (simp add: add_increasing)
  with ih Cons.prems show ?case by (auto intro: add_left_mono)
qed

lemma filter_prune_loop:
  "cutoff \<le> since \<Longrightarrow>
   filter (\<lambda>p. since \<le> timestamp p) (prune_loop cutoff ps) = filter (\<lambda>p. since \<le> timestamp p) ps"
  by (induction ps) auto

lemma spentSince_prune_loop:
  "cutoff \<le> since \<Longrightarrow> spentSince since (prune_loop cutoff ps) = spentSince since ps"
  by (simp add: spentSince_def filter_prune_loop)

lemma prune_loop_drop:
  "\<exists>k. prune_loop cutoff ps = drop k ps \<and> (\<forall>p \<in> set (take k ps). timestamp p < cutoff)"
proof (induction ps)
  case Nil
  show ?case by simp
next
  case (Cons p ps)
  show ?case
  proof (cases "timestamp p < cutoff")
    case True
    from Cons obtain k where k: "prune_loop cutoff ps = drop k ps"
      "\<forall>q \<in> set (take k ps). timestamp q < cutoff" by blast
    with True have "prune_loop cutoff (p # ps) = drop (Suc k) (p # ps) \<and>
        (\<forall>q \<in> set (take (Suc k) (p # ps)). timestamp q < cutoff)" by simp
    then show ?thesis by blast
  next
    case False
    then have "prune_loop cutoff (p # ps) = drop 0 (p # ps) \<and>
        (\<forall>q \<in> set (take 0 (p # ps)). timestamp q < cutoff)" by simp
    then show ?thesis by blast
  qed
qed

lemma spentLastHour_eq: "fst (spentLastHour b t) = spentSince (t - 3600000) (payments b)"
  by (simp add: spentLastHour_def prune_def Let_def spentSince_prune_loop)

lemma spentLastDay_eq: "fst (spentLastDay b t) = spentSince (t - 86400000) (payments b)"
  by (simp add: spentLastDay_def prune_def Let_def spentSince_prune_loop)

lemma spentSince_exact:
  "sum_list (map amount (filter (\<lambda>p. since \<le> timestamp p) ps)) \<le> enat (2 ^ 53) \<Longrightarrow>
   spentSince since ps = sum_list (map amount (filter (\<lambda>p. since \<le> timestamp p) ps))"
  by (simp add: spentSince_doubleSum doubleSum_exact)

lemma hour_le_day:
  "sum_list (map amount (filter (\<lambda>p. t - 3600000 \<le> timestamp p) ps))
     \<le> sum_list (map amount (filter (\<lambda>p. t - 86400000 \<le> timestamp p) ps) :: sats list)"
  by (rule sum_filter_mono) simp

text \<open>
  C4 (amended). At every time \<open>t\<close> not earlier than any recorded time stamp,
  \<open>spentLastHour()\<close> is the sum, added in doubles in the order of recording, of the
  recorded amounts whose time stamp lies in the closed interval \<open>[t - 3,600,000, t]\<close>:
  the lower boundary is included. As long as the amounts of the last 24 hours sum to at
  most \<open>2^53\<close> no addition rounds, and \<open>spentLastHour()\<close> equals the sum of those amounts;
  then a payment recorded at \<open>T\<close> no longer counts in \<open>spentLastHour()\<close> once
  \<open>t > T + 3,600,000\<close>, and still counts in \<open>spentLastDay()\<close> while \<open>t \<le> T + 86,400,000\<close>:
  removing it from the record leaves the hourly sum as it is and lowers the daily sum by
  its amount.
\<close>

theorem spentLastHour_closed_window:
  assumes "\<forall>p \<in> set (payments b). timestamp p \<le> t"
  shows "fst (spentLastHour b t) =
           doubleSum (map amount
             (filter (\<lambda>p. t - 3600000 \<le> timestamp p \<and> timestamp p \<le> t) (payments b)))
       \<and> (sum_list (map amount (filter (\<lambda>p. t - 86400000 \<le> timestamp p) (payments b)))
              \<le> enat (2 ^ 53) \<longrightarrow>
            fst (spentLastHour b t) =
              sum_list (map amount
                (filter (\<lambda>p. t - 3600000 \<le> timestamp p \<and> timestamp p \<le> t) (payments b)))
          \<and> (\<forall>xs p ys. payments b = xs @ p # ys \<and> timestamp p + 3600000 < t
                  \<and> t \<le> timestamp p + 86400000 \<longrightarrow>
                fst (spentLastHour b t) = fst (spentLastHour (b\<lparr>payments := xs @ ys\<rparr>) t)
              \<and> fst (spentLastDay b t) =
                  amount p + fst (spentLastDay (b\<lparr>payments := xs @ ys\<rparr>) t)))"
proof -
  let ?day = "sum_list (map amount (filter (\<lambda>p. t - 86400000 \<le> timestamp p) (payments b)))"
  have closed: "filter (\<lambda>p. t - 3600000 \<le> timestamp p) (payments b) =
        filter (\<lambda>p. t - 3600000 \<le> timestamp p \<and> timestamp p \<le> t) (payments b)"
    using assms by (intro filter_cong) auto
  then have A: "fst (spentLastHour b t) =
           doubleSum (map amount
             (filter (\<lambda>p. t - 3600000 \<le> timestamp p \<and> timestamp p \<le> t) (payments b)))"
    by (simp add: spentLastHour_eq spentSince_doubleSum)
  have B: "fst (spentLastHour b t) =
              sum_list (map amount
                (filter (\<lambda>p. t - 3600000 \<le> timestamp p \<and> timestamp p \<le> t) (payments b)))"
    if "?day \<le> enat (2 ^ 53)"
  proof -
    from that hour_le_day [of t "payments b"]
    have "sum_list (map amount (filter (\<lambda>p. t - 3600000 \<le> timestamp p) (payments b)))
            \<le> enat (2 ^ 53)"
      by (rule order_trans [rotated])
    then show ?thesis using closed by (simp add: spentLastHour_eq spentSince_exact)
  qed
  have C: "fst (spentLastHour b t) = fst (spentLastHour (b\<lparr>payments := xs @ ys\<rparr>) t)
         \<and> fst (spentLastDay b t) = amount p + fst (spentLastDay (b\<lparr>payments := xs @ ys\<rparr>) t)"
    if day: "?day \<le> enat (2 ^ 53)" and split: "payments b = xs @ p # ys"
      and old: "timestamp p + 3600000 < t" and young: "t \<le> timestamp p + 86400000"
    for xs p ys
  proof -
    have hour: "fst (spentLastHour b t) = fst (spentLastHour (b\<lparr>payments := xs @ ys\<rparr>) t)"
      using split old by (simp add: spentLastHour_eq spentSince_def)
    let ?rest = "sum_list (map amount (filter (\<lambda>p. t - 86400000 \<le> timestamp p) (xs @ ys)))"
    have sum: "?day = amount p + ?rest"
      using split young by (simp add: ac_simps)
    then have "?rest \<le> ?day" by (simp add: le_iff_add add.commute)
    from this day have "?rest \<le> enat (2 ^ 53)" by (rule order_trans)
    then have "fst (spentLastDay (b\<lparr>payments := xs @ ys\<rparr>) t) = ?rest"
      by (simp add: spentLastDay_eq spentSince_exact)
    moreover have "fst (spentLastDay b t) = ?day"
      using day by (simp add: spentLastDay_eq spentSince_exact)
    ultimately show ?thesis using hour sum by simp
  qed
  from A B C show ?thesis by blast
qed

text \<open>
  C4 as stated fails twice. A payment stamped exactly one hour before \<open>t\<close> is outside
  the half-open interval \<open>(t - 3,600,000, t]\<close>, but \<open>spentLastHour()\<close> counts it. And for
  recorded payments of \<open>2^53\<close> and 1 satoshis \<open>spentLastHour()\<close> is \<open>2^53\<close>, one less than
  their sum, since the second addition rounds.
\<close>

theorem spentLastHour_half_open_counterexample:
  "fst (spentLastHour budgetEdge 3600000) = 5
   \<and> spec_spentLastHour 3600000 (payments budgetEdge) = 0
   \<and> fst (spentLastHour budgetBig 0) = 9007199254740992
   \<and> spec_spentLastHour 0 (payments budgetBig) = 9007199254740993"
proof -
  have r: "addNumber 9007199254740992 1 = 9007199254740992"
    by (simp add: enat_eval addNumber_enat Number_def Let_def bitLength.simps)
  have "fst (spentLastHour budgetEdge 3600000) = 5"
    by (simp add: budgetEdge_def spentLastHour_def prune_def spentSince_def Let_def
        addNumber_small)
  moreover have "spec_spentLastHour 3600000 (payments budgetEdge) = 0"
    by (simp add: budgetEdge_def spec_spentLastHour_def)
  moreover have "fst (spentLastHour budgetBig 0) = 9007199254740992"
    by (simp add: budgetBig_def spentLastHour_def prune_def spentSince_def Let_def
        addNumber_small r)
  moreover have "spec_spentLastHour 0 (payments budgetBig) = 9007199254740993"
    by (simp add: budgetBig_def spec_spentLastHour_def)
  ultimately show ?thesis by simp
qed

theorem spentLastHour_closed_window_witness:
  "map timestamp (payments budgetTwo) = [0, 7200000]
   \<and> fst (spentLastHour budgetTwo 7200000) = 300
   \<and> fst (spentLastDay budgetTwo 7200000) = 800
   \<and> fst (spentLastHour (budgetTwo\<lparr>payments := [\<lparr>timestamp = 7200000, amount = 300\<rparr>]\<rparr>) 7200000)
       = fst (spentLastHour budgetTwo 7200000)"
proof -
  have h: "\<forall>p \<in> set (payments budgetTwo). timestamp p \<le> 7200000"
    by (simp add: budgetTwo_def)
  have day: "sum_list (map amount
      (filter (\<lambda>p. 7200000 - 86400000 \<le> timestamp p) (payments budgetTwo))) \<le> enat (2 ^ 53)"
    by (simp add: budgetTwo_def enat_eval)
  have split: "payments budgetTwo =
      [] @ \<lparr>timestamp = 0, amount = 500\<rparr> # [\<lparr>timestamp = 7200000, amount = 300\<rparr>]
      \<and> timestamp \<lparr>timestamp = 0, amount = 500\<rparr> + 3600000 < 7200000
      \<and> (7200000 :: int) \<le> timestamp \<lparr>timestamp = 0, amount = 500\<rparr> + 86400000"
    by (simp add: budgetTwo_def)
  from spentLastHour_closed_window [OF h] day split
  have "fst (spentLastHour budgetTwo 7200000) =
          fst (spentLastHour (budgetTwo\<lparr>payments := [] @ [\<lparr>timestamp = 7200000, amount = 300\<rparr>]\<rparr>) 7200000)"
    by blast
  then show ?thesis
    by (simp add: budgetTwo_def spentLastHour_def spentLastDay_def prune_def spentSince_def
        Let_def addNumber_small)
qed

lemma check_fst:
  "fst (check b now amt domain) =
     (case domainRejected b domain of
        Some d \<Rightarrow> Inl (DomainNotAllowedError d)
      | None \<Rightarrow>
          if amt > maxSatsPerRequest b then
            Inl (BudgetExceededError ''per_request'' (maxSatsPerRequest b) 0 amt)
          else if addNumber (fst (spentLastHour b now)) amt > maxSatsPerHour b then
            Inl (BudgetExceededError ''per_hour'' (maxSatsPerHour b) (fst (spentLastHour b now)) amt)
          else if addNumber (fst (spentLastDay b now)) amt > maxSatsPerDay b then
            Inl (BudgetExceededError ''per_day'' (maxSatsPerDay b) (fst (spentLastDay b now)) amt)
          else Inr ())"
  by (simp add: check_def spentLastHour_eq spentLastDay_eq prune_def Let_def
      spentSince_prune_loop split: option.splits)

lemma check_snd:
  "snd (check b now amt domain) =
     (if domainRejected b domain \<noteq> None \<or> amt > maxSatsPerRequest b then b else prune now b)"
  by (auto simp add: check_def Let_def split: option.splits)

text \<open>
  C3 (amended). Every call of \<open>check\<close> runs its tests in the fixed order domain
  allow-list, per-request, per-hour, per-day, and the first violated one determines the
  error. The call never records a payment. It is not strictly read-only: when the
  allow-list and per-request tests pass, it first drops from the front of the recorded
  payments the entries older than 24 hours (whether or not a later test throws), and
  changes nothing else; the hourly and daily sums at that time are unaffected.
\<close>

theorem check_order_and_pruning:
  "fst (check b now amt domain) =
     (case domainRejected b domain of
        Some d \<Rightarrow> Inl (DomainNotAllowedError d)
      | None \<Rightarrow>
          if amt > maxSatsPerRequest b then
            Inl (BudgetExceededError ''per_request'' (maxSatsPerRequest b) 0 amt)
          else if addNumber (fst (spentLastHour b now)) amt > maxSatsPerHour b then
            Inl (BudgetExceededError ''per_hour'' (maxSatsPerHour b) (fst (spentLastHour b now)) amt)
          else if addNumber (fst (spentLastDay b now)) amt > maxSatsPerDay b then
            Inl (BudgetExceededError ''per_day'' (maxSatsPerDay b) (fst (spentLastDay b now)) amt)
          else Inr ())
   \<and> snd (check b now amt domain) =
       (if domainRejected b domain \<noteq> None \<or> amt > maxSatsPerRequest b then b else prune now b)
   \<and> (\<exists>k. payments (snd (check b now amt domain)) = drop k (payments b)
          \<and> (\<forall>p \<in> set (take k (payments b)). timestamp p < now - 86400000))
   \<and> fst (spentLastHour (snd (check b now amt domain)) now) = fst (spentLastHour b now)
   \<and> fst (spentLastDay (snd (check b now amt domain)) now) = fst (spentLastDay b now)"
proof -
  have drop: "\<exists>k. payments (snd (check b now amt domain)) = drop k (payments b)
          \<and> (\<forall>p \<in> set (take k (payments b)). timestamp p < now - 86400000)"
  proof (cases "domainRejected b domain \<noteq> None \<or> amt > maxSatsPerRequest b")
    case True
    then have "payments (snd (check b now amt domain)) = drop 0 (payments b)
          \<and> (\<forall>p \<in> set (take 0 (payments b)). timestamp p < now - 86400000)"
      by (simp add: check_snd)
    then show ?thesis by blast
  next
    case False
    then have "payments (snd (check b now amt domain)) = prune_loop (now - 86400000) (payments b)"
      by (simp add: check_snd prune_def)
    then show ?thesis using prune_loop_drop [of "now - 86400000" "payments b"] by simp
  qed
  have hour: "fst (spentLastHour (snd (check b now amt domain)) now) = fst (spentLastHour b now)"
    by (simp add: check_snd spentLastHour_eq prune_def spentSince_prune_loop)
  have day: "fst (spentLastDay (snd (check b now amt domain)) now) = fst (spentLastDay b now)"
    by (simp add: check_snd spentLastDay_eq prune_def spentSince_prune_loop)
  from check_fst [of b now amt domain] check_snd [of b now amt domain] drop hour day
  show ?thesis by blast
qed

lemmas budget_eval = check_def domainRejected_def prune_def spentSince_def spentLastHour_def
  spentLastDay_def Let_def addNumber_small

text \<open>
  C3 as stated fails: a check that throws the hourly error has already removed a
  payment older than 24 hours from the recorded payments.
\<close>

theorem check_read_only_counterexample:
  "fst (check budgetOld 86400001 1 None) =
     Inl (BudgetExceededError ''per_hour'' 10000 10000 1)
   \<and> payments (snd (check budgetOld 86400001 1 None)) \<noteq> payments budgetOld"
  by (simp add: budgetOld_def budget_eval)

theorem check_order_and_pruning_witness:
  "payments (snd (check budgetOld 86400001 1 None)) = [\<lparr>timestamp = 86400000, amount = 10000\<rparr>]
   \<and> fst (spentLastDay (snd (check budgetOld 86400001 1 None)) 86400001) = 10000"
  using check_order_and_pruning [of budgetOld 86400001 1 None]
  by (simp add: budgetOld_def budget_eval)

text \<open>
  C8. With an allow-list configured, a call of \<open>check\<close> without a domain or with the
  empty string as domain never raises \<open>DomainNotAllowedError\<close>, whatever the list holds:
  the result is the one the controller without an allow-list gives, that is, the outcome
  of the per-request, per-hour and per-day tests.
\<close>

theorem check_without_domain_skips_allow_list:
  assumes "domain = None \<or> domain = Some ''''"
  shows "(\<forall>d. fst (check b now amt domain) \<noteq> Inl (DomainNotAllowedError d))
       \<and> fst (check b now amt domain) = fst (check (b\<lparr>allowedDomains := None\<rparr>) now amt domain)
       \<and> fst (check b now amt domain) =
           (if amt > maxSatsPerRequest b then
              Inl (BudgetExceededError ''per_request'' (maxSatsPerRequest b) 0 amt)
            else if addNumber (fst (spentLastHour b now)) amt > maxSatsPerHour b then
              Inl (BudgetExceededError ''per_hour'' (maxSatsPerHour b) (fst (spentLastHour b now)) amt)
            else if addNumber (fst (spentLastDay b now)) amt > maxSatsPerDay b then
              Inl (BudgetExceededError ''per_day'' (maxSatsPerDay b) (fst (spentLastDay b now)) amt)
            else Inr ())"
proof -
  from assms have rej: "domainRejected b domain = None"
    by (auto simp add: domainRejected_def split: option.splits)
  have rej': "domainRejected (b\<lparr>allowedDomains := None\<rparr>) domain = None"
    by (simp add: domainRejected_def)
  have same: "fst (spentLastHour (b\<lparr>allowedDomains := None\<rparr>) now) = fst (spentLastHour b now)"
    "fst (spentLastDay (b\<lparr>allowedDomains := None\<rparr>) now) = fst (spentLastDay b now)"
    by (simp_all add: spentLastHour_eq spentLastDay_eq)
  show ?thesis
    by (simp add: check_fst rej rej' same)
qed

theorem check_without_domain_skips_allow_list_witness:
  "(Some '''' = (None :: string option) \<or> Some '''' = Some '''')
   \<and> fst (check budgetAllow 0 100 (Some '''')) = Inr ()
   \<and> fst (check budgetAllow 0 1500 (Some '''')) =
         Inl (BudgetExceededError ''per_request'' 1000 0 1500)
   \<and> fst (check budgetAllow 0 100 (Some ''evil.com'')) = Inl (DomainNotAllowedError ''evil.com'')"
  using check_without_domain_skips_allow_list [of "Some ''''" budgetAllow 0 100]
    check_without_domain_skips_allow_list [of "Some ''''" budgetAllow 0 1500]
  by (simp add: budgetAllow_def budget_eval string_eval)

text \<open>
  C9 (amended). The three budget comparisons are strict, on sums that the code adds in
  doubles. When the domain is accepted, \<open>check\<close> passes exactly when the amount is at
  most \<open>maxSatsPerRequest\<close> and the trailing hourly and daily sums, each plus the amount,
  are at most their ceilings, equality included; a \<open>BudgetExceededError\<close> comes only from
  strictly exceeding the ceiling it names. As long as the amounts of the last 24 hours
  plus the new amount sum to at most \<open>2^53\<close> no addition rounds, and these are the sums of
  the recorded amounts: a payment that equals \<open>maxSatsPerRequest\<close>, or that brings the
  trailing hourly or daily sum exactly to its ceiling, passes.
\<close>

theorem check_limits_strict:
  assumes "domainRejected b domain = None"
  shows "(fst (check b now amt domain) = Inr ()) =
           (amt \<le> maxSatsPerRequest b
            \<and> addNumber (fst (spentLastHour b now)) amt \<le> maxSatsPerHour b
            \<and> addNumber (fst (spentLastDay b now)) amt \<le> maxSatsPerDay b)
       \<and> (\<forall>ty lim cur iv. fst (check b now amt domain) = Inl (BudgetExceededError ty lim cur iv) \<longrightarrow>
             (ty = ''per_request'' \<and> amt > maxSatsPerRequest b)
           \<or> (ty = ''per_hour'' \<and> addNumber (fst (spentLastHour b now)) amt > maxSatsPerHour b)
           \<or> (ty = ''per_day'' \<and> addNumber (fst (spentLastDay b now)) amt > maxSatsPerDay b))
       \<and> (sum_list (map amount (filter (\<lambda>p. now - 86400000 \<le> timestamp p) (payments b))) + amt
              \<le> enat (2 ^ 53) \<longrightarrow>
            (fst (check b now amt domain) = Inr ()) =
              (amt \<le> maxSatsPerRequest b
               \<and> sum_list (map amount (filter (\<lambda>p. now - 3600000 \<le> timestamp p) (payments b))) + amt
                    \<le> maxSatsPerHour b
               \<and> sum_list (map amount (filter (\<lambda>p. now - 86400000 \<le> timestamp p) (payments b))) + amt
                    \<le> maxSatsPerDay b))"
proof -
  let ?hour = "sum_list (map amount (filter (\<lambda>p. now - 3600000 \<le> timestamp p) (payments b)))"
  let ?day = "sum_list (map amount (filter (\<lambda>p. now - 86400000 \<le> timestamp p) (payments b)))"
  have A: "(fst (check b now amt domain) = Inr ()) =
           (amt \<le> maxSatsPerRequest b
            \<and> addNumber (fst (spentLastHour b now)) amt \<le> maxSatsPerHour b
            \<and> addNumber (fst (spentLastDay b now)) amt \<le> maxSatsPerDay b)"
    using assms by (auto simp add: check_fst not_less)
  have B: "\<forall>ty lim cur iv. fst (check b now amt domain) = Inl (BudgetExceededError ty lim cur iv) \<longrightarrow>
             (ty = ''per_request'' \<and> amt > maxSatsPerRequest b)
           \<or> (ty = ''per_hour'' \<and> addNumber (fst (spentLastHour b now)) amt > maxSatsPerHour b)
           \<or> (ty = ''per_day'' \<and> addNumber (fst (spentLastDay b now)) amt > maxSatsPerDay b)"
    using assms by (auto simp add: check_fst not_less)
  have C: "(fst (check b now amt domain) = Inr ()) =
              (amt \<le> maxSatsPerRequest b \<and> ?hour + amt \<le> maxSatsPerHour b
               \<and> ?day + amt \<le> maxSatsPerDay b)"
    if range: "?day + amt \<le> enat (2 ^ 53)"
  proof -
    have "?day \<le> ?day + amt" by (simp add: le_iff_add)
    from this range have day: "?day \<le> enat (2 ^ 53)" by (rule order_trans)
    with hour_le_day [of now "payments b"] have hour: "?hour \<le> enat (2 ^ 53)"
      by (rule order_trans)
    have "?hour + amt \<le> ?day + amt"
      using hour_le_day [of now "payments b"] by (rule add_right_mono)
    with range have hr: "?hour + amt \<le> enat (2 ^ 53)" by (rule order_trans [rotated])
    have "fst (spentLastHour b now) = ?hour" "fst (spentLastDay b now) = ?day"
      using hour day by (simp_all add: spentLastHour_eq spentLastDay_eq spentSince_exact)
    then show ?thesis
      using A by (simp add: addNumber_exact [OF hr] addNumber_exact [OF range])
  qed
  from A B C show ?thesis by blast
qed

text \<open>
  C9 as stated fails beyond \<open>2^53\<close>: with recorded payments of \<open>2^53 + 2\<close>, 1 and 3
  satoshis and an hourly ceiling of \<open>2^53 + 8\<close>, a payment of 2 brings the trailing
  hourly sum exactly to the ceiling, yet \<open>check\<close> raises the hourly error: added in
  doubles, the recorded payments already give \<open>2^53 + 8\<close>.
\<close>

theorem check_limits_rounding_counterexample:
  "sum_list (map amount (payments budgetRound)) + 2 = maxSatsPerHour budgetRound
   \<and> fst (check budgetRound 0 2 None) =
       Inl (BudgetExceededError ''per_hour'' 9007199254741000 9007199254741000 2)"
proof -
  have r0: "addNumber 0 9007199254740994 = 9007199254740994"
    by (simp add: enat_eval addNumber_enat Number_def Let_def bitLength.simps)
  have r1: "addNumber 9007199254740994 1 = 9007199254740996"
    by (simp add: enat_eval addNumber_enat Number_def Let_def bitLength.simps)
  have r2: "addNumber 9007199254740996 3 = 9007199254741000"
    by (simp add: enat_eval addNumber_enat Number_def Let_def bitLength.simps)
  have r3: "addNumber 9007199254741000 2 = 9007199254741002"
    by (simp add: enat_eval addNumber_enat Number_def Let_def bitLength.simps)
  have "fst (check budgetRound 0 2 None) =
       Inl (BudgetExceededError ''per_hour'' 9007199254741000 9007199254741000 2)"
    by (simp add: budgetRound_def budget_eval r0 r1 r2 r3)
  moreover have "sum_list (map amount (payments budgetRound)) + 2 = maxSatsPerHour budgetRound"
    by (simp add: budgetRound_def)
  ultimately show ?thesis by simp
qed

theorem check_limits_strict_witness:
  "domainRejected budgetExact None = None
   \<and> 1000 = maxSatsPerRequest budgetExact
   \<and> fst (spentLastHour budgetExact 7201000) + 1000 = maxSatsPerHour budgetExact
   \<and> fst (spentLastDay budgetExact 7201000) + 1000 = maxSatsPerDay budgetExact
   \<and> fst (check budgetExact 7201000 1000 None) = Inr ()
   \<and> fst (check budgetExact 7201000 1001 None) =
        Inl (BudgetExceededError ''per_request'' 1000 0 1001)"
proof -
  have rej: "domainRejected budgetExact None = None"
    by (simp add: domainRejected_def budgetExact_def)
  have range: "sum_list (map amount
        (filter (\<lambda>p. 7201000 - 86400000 \<le> timestamp p) (payments budgetExact))) + 1000
      \<le> enat (2 ^ 53)"
    by (simp add: budgetExact_def enat_eval)
  from check_limits_strict [OF rej, of 7201000 1000] range
  have "(fst (check budgetExact 7201000 1000 None) = Inr ()) =
        (1000 \<le> maxSatsPerRequest budgetExact
         \<and> sum_list (map amount
              (filter (\<lambda>p. 7201000 - 3600000 \<le> timestamp p) (payments budgetExact))) + 1000
            \<le> maxSatsPerHour budgetExact
         \<and> sum_list (map amount
              (filter (\<lambda>p. 7201000 - 86400000 \<le> timestamp p) (payments budgetExact))) + 1000
            \<le> maxSatsPerDay budgetExact)"
    by blast
  then have "fst (check budgetExact 7201000 1000 None) = Inr ()"
    by (simp add: budgetExact_def)
  then show ?thesis
    by (simp add: budgetExact_def budget_eval)
qed

section \<open>The credential cache: lemmas\<close>

lemma Map_delete_keys: "fst ` set (Map_delete k m) = fst ` set m - {k}"
  by (auto simp add: Map_delete_def)

lemma Map_delete_absent: "k \<notin> fst ` set m \<Longrightarrow> Map_delete k m = m"
  by (induction m) (auto simp add: Map_delete_def)

lemma Map_delete_distinct: "distinct (map fst m) \<Longrightarrow> distinct (map fst (Map_delete k m))"
  by (simp add: Map_delete_def distinct_map_filter)

lemma Map_delete_head: "fst e \<notin> fst ` set es \<Longrightarrow> Map_delete (fst e) (e # es) = es"
  using Map_delete_absent [of "fst e" es] by (simp add: Map_delete_def)

lemma Map_set_after_delete: "Map_set k v (Map_delete k m) = Map_delete k m @ [(k, v)]"
  by (simp add: Map_set_def Map_delete_keys)

lemma Map_get_after_delete: "Map_get (Map_delete k m) k = None"
  by (simp add: Map_get_def map_of_eq_None_iff Map_delete_keys)

lemma evict_size: "evict n m = Some m' \<Longrightarrow> int (length m') \<le> n"
  by (induction n m rule: evict.induct) (auto split: if_splits)

lemma evict_returns: "0 \<le> n \<Longrightarrow> \<exists>m'. evict n m = Some m'"
  by (induction n m rule: evict.induct) auto

lemma evict_zero: "evict 0 m = Some []"
  by (induction "0 :: int" m rule: evict.induct) auto

lemma evict_distinct:
  "distinct (map fst m) \<Longrightarrow> 0 \<le> n \<Longrightarrow> evict n m = Some (drop (length m - nat n) m)"
proof (induction n m rule: evict.induct)
  case (1 maxSz)
  then show ?case by simp
next
  case (2 maxSz e es)
  show ?case
  proof (cases "int (length (e # es)) > maxSz")
    case True
    from "2.prems" have del: "Map_delete (fst e) (e # es) = es"
      by (intro Map_delete_head) auto
    from "2.prems" have "evict maxSz es = Some (drop (length es - nat maxSz) es)"
      using "2.IH" [OF True] del by simp
    moreover from True "2.prems"(2) have "length (e # es) - nat maxSz = Suc (length es - nat maxSz)"
      by auto
    ultimately show ?thesis using True del by simp
  next
    case False
    then show ?thesis by simp
  qed
qed


lemma evict_keeps_last:
  assumes "1 \<le> n" and "k \<notin> fst ` set xs"
  shows "\<exists>ys. evict n (xs @ [(k, v)]) = Some (ys @ [(k, v)]) \<and> set ys \<subseteq> set xs"
  using assms(2)
proof (induction "length xs" arbitrary: xs rule: less_induct)
  case less
  show ?case
  proof (cases xs)
    case Nil
    then show ?thesis using assms(1) by simp
  next
    case (Cons e es)
    show ?thesis
    proof (cases "int (length (xs @ [(k, v)])) > n")
      case False
      then have "evict n (xs @ [(k, v)]) = Some (xs @ [(k, v)])" using Cons by simp
      then show ?thesis by blast
    next
      case True
      have ne: "fst e \<noteq> k" using less.prems Cons by auto
      have del: "Map_delete (fst e) (e # es @ [(k, v)]) = Map_delete (fst e) es @ [(k, v)]"
        using ne by (simp add: Map_delete_def)
      have "length (Map_delete (fst e) es) < length xs"
        using Cons by (simp add: Map_delete_def less_Suc_eq_le)
      moreover have "k \<notin> fst ` set (Map_delete (fst e) es)"
        using less.prems Cons by (auto simp add: Map_delete_def)
      ultimately obtain ys where ys: "evict n (Map_delete (fst e) es @ [(k, v)]) = Some (ys @ [(k, v)])"
        "set ys \<subseteq> set (Map_delete (fst e) es)"
        using less.hyps by blast
      have "evict n (xs @ [(k, v)]) = evict n (Map_delete (fst e) (e # es @ [(k, v)]))"
        using True Cons by simp
      with ys del have "evict n (xs @ [(k, v)]) = Some (ys @ [(k, v)])" by simp
      moreover have "set ys \<subseteq> set xs" using ys(2) Cons by (auto simp add: Map_delete_def)
      ultimately show ?thesis by blast
    qed
  qed
qed

lemma cacheKey_take2:
  "cacheKey d p = trim (toLowerCase d) @ ''::'' @ ''/'' @ join ''/'' (take 2 (pathParts p))"
  by (simp add: cacheKey_def Let_def)

lemma cacheKey_cong:
  "take 2 (pathParts p1) = take 2 (pathParts p2) \<Longrightarrow> toLowerCase d1 = toLowerCase d2 \<Longrightarrow>
   cacheKey d1 p1 = cacheKey d2 p2"
  by (simp add: cacheKey_take2)

lemma put_stores:
  assumes "1 \<le> maxSize c"
  shows "\<exists>cred c'. put c now d p mac pre ex = Some (cred, c')
           \<and> macaroon cred = mac \<and> preimage cred = pre \<and> createdAt cred = now
           \<and> Map_get (cache c') (cacheKey d p) = Some cred"
proof -
  let ?key = "cacheKey d p"
  let ?ex = "case ex of Some e \<Rightarrow> e
             | None \<Rightarrow> (case defaultTtlMs c of Some ttl \<Rightarrow> Some (now + ttl) | None \<Rightarrow> None)"
  let ?cred = "\<lparr>macaroon = mac, preimage = pre, createdAt = now, expiresAt = ?ex\<rparr>"
  have absent: "?key \<notin> fst ` set (Map_delete ?key (cache c))"
    by (simp add: Map_delete_keys)
  from evict_keeps_last [OF assms absent, of ?cred] obtain ys
    where ys: "evict (maxSize c) (Map_delete ?key (cache c) @ [(?key, ?cred)]) = Some (ys @ [(?key, ?cred)])"
      "set ys \<subseteq> set (Map_delete ?key (cache c))" by blast
  have "?key \<notin> fst ` set ys" using ys(2) absent by auto
  then have "Map_get (ys @ [(?key, ?cred)]) ?key = Some ?cred"
    by (simp add: Map_get_def map_add_def map_of_eq_None_iff [THEN iffD2])
  moreover have "put c now d p mac pre ex = Some (?cred, c\<lparr>cache := ys @ [(?key, ?cred)]\<rparr>)"
    using ys(1) by (simp add: put_def Let_def Map_set_after_delete)
  ultimately show ?thesis by simp
qed

lemma get_found:
  assumes "Map_get (cache c) (cacheKey d p) = Some cred"
    and "case expiresAt cred of None \<Rightarrow> True | Some e \<Rightarrow> now < e"
  shows "get c now d p =
           (Some cred, c\<lparr>cache := Map_delete (cacheKey d p) (cache c) @ [(cacheKey d p, cred)]\<rparr>)"
  using assms by (simp add: get_def Let_def Map_set_after_delete split: option.splits)

lemma get_hit:
  assumes "fst (get c now d p) = Some cred"
  shows "Map_get (cache c) (cacheKey d p) = Some cred
       \<and> get c now d p =
           (Some cred, c\<lparr>cache := Map_delete (cacheKey d p) (cache c) @ [(cacheKey d p, cred)]\<rparr>)"
  using assms by (auto simp add: get_def Let_def Map_set_after_delete split: option.splits if_splits)

lemma put_new_key_full:
  assumes "distinct (map fst (cache c))" and "int (length (cache c)) = maxSize c"
    and "cache c = e # es" and "cacheKey d p \<notin> fst ` set (cache c)"
  shows "\<exists>cred. put c now d p mac pre ex = Some (cred, c\<lparr>cache := es @ [(cacheKey d p, cred)]\<rparr>)
           \<and> macaroon cred = mac \<and> preimage cred = pre"
proof -
  let ?key = "cacheKey d p"
  let ?ex = "case ex of Some e \<Rightarrow> e
             | None \<Rightarrow> (case defaultTtlMs c of Some ttl \<Rightarrow> Some (now + ttl) | None \<Rightarrow> None)"
  let ?cred = "\<lparr>macaroon = mac, preimage = pre, createdAt = now, expiresAt = ?ex\<rparr>"
  let ?m = "cache c @ [(?key, ?cred)]"
  have m: "Map_set ?key ?cred (Map_delete ?key (cache c)) = ?m"
    using assms(4) by (simp add: Map_delete_absent Map_set_def)
  have "distinct (map fst ?m)" using assms(1,4) by simp
  moreover have "0 \<le> maxSize c" using assms(2) by simp
  ultimately have "evict (maxSize c) ?m = Some (drop (length ?m - nat (maxSize c)) ?m)"
    by (rule evict_distinct)
  moreover have "length ?m - nat (maxSize c) = 1" using assms(2) by simp
  ultimately have "evict (maxSize c) ?m = Some (es @ [(?key, ?cred)])"
    using assms(3) by simp
  then have "put c now d p mac pre ex = Some (?cred, c\<lparr>cache := es @ [(?key, ?cred)]\<rparr>)"
    using m by (simp add: put_def Let_def)
  then show ?thesis by simp
qed


text \<open>
  C10. After every \<open>put\<close> that returns, the cache holds at most \<open>maxSize\<close> entries, and
  \<open>put\<close> returns whenever \<open>maxSize\<close> is not negative. With \<open>maxSize = 0\<close> the entry just
  inserted is evicted at once: \<open>put\<close> still returns the credential it built, the cache
  is empty afterwards, and a later \<open>get\<close> for the same key returns null.
\<close>

theorem put_respects_maxSize:
  "(\<forall>cred c'. put c now d p mac pre ex = Some (cred, c') \<longrightarrow>
       int (size_cache c') \<le> maxSize c \<and> maxSize c' = maxSize c)
   \<and> (0 \<le> maxSize c \<longrightarrow> (\<exists>cred c'. put c now d p mac pre ex = Some (cred, c')))
   \<and> (maxSize c = 0 \<longrightarrow>
        (\<exists>cred. put c now d p mac pre ex = Some (cred, c\<lparr>cache := []\<rparr>)
           \<and> macaroon cred = mac \<and> preimage cred = pre
           \<and> fst (get (c\<lparr>cache := []\<rparr>) now' d p) = None))"
proof -
  let ?key = "cacheKey d p"
  let ?ex = "case ex of Some e \<Rightarrow> e
             | None \<Rightarrow> (case defaultTtlMs c of Some ttl \<Rightarrow> Some (now + ttl) | None \<Rightarrow> None)"
  let ?cred = "\<lparr>macaroon = mac, preimage = pre, createdAt = now, expiresAt = ?ex\<rparr>"
  let ?m = "Map_set ?key ?cred (Map_delete ?key (cache c))"
  have put: "put c now d p mac pre ex =
      (case evict (maxSize c) ?m of None \<Rightarrow> None | Some m' \<Rightarrow> Some (?cred, c\<lparr>cache := m'\<rparr>))"
    by (simp add: put_def Let_def)
  have bound: "int (size_cache c') \<le> maxSize c \<and> maxSize c' = maxSize c"
    if "put c now d p mac pre ex = Some (cred, c')" for cred c'
    using that evict_size [of "maxSize c" ?m]
    by (auto simp add: put size_cache_def split: option.splits)
  have returns: "\<exists>cred c'. put c now d p mac pre ex = Some (cred, c')" if "0 \<le> maxSize c"
    using evict_returns [OF that, of ?m] by (auto simp add: put)
  have zero: "\<exists>cred. put c now d p mac pre ex = Some (cred, c\<lparr>cache := []\<rparr>)
           \<and> macaroon cred = mac \<and> preimage cred = pre
           \<and> fst (get (c\<lparr>cache := []\<rparr>) now' d p) = None" if "maxSize c = 0"
    using that by (simp add: put evict_zero get_def Map_get_def)
  from bound returns zero show ?thesis by blast
qed

lemmas cache_eval = put_def get_def cacheKey_def pathParts_def Map_get_def Map_set_def
  Map_delete_def size_cache_def Let_def

theorem put_respects_maxSize_witness:
  "put cacheZero 0 ''a.com'' ''/x'' ''mac1'' ''pre1'' None = Some (credA, cacheZero)
   \<and> size_cache cacheZero = 0
   \<and> fst (get cacheZero 1 ''a.com'' ''/x'') = None"
  using put_respects_maxSize [of cacheZero 0 "''a.com''" "''/x''" "''mac1''" "''pre1''" None 1]
  by (simp add: cacheZero_def credA_def cache_eval string_eval)

text \<open>
  C7. Two paths with the same first two segments, under origins that differ at most in
  letter case, derive the same cache key, so \<open>get\<close> and \<open>put\<close> under one are the same
  operations as under the other. In a cache that keeps at least one entry, \<open>put\<close> on one
  path followed by \<open>get\<close> on the other, before the credential expires, returns the
  stored credential.
\<close>

theorem cacheKey_groups_sibling_paths:
  assumes "take 2 (pathParts p1) = take 2 (pathParts p2)"
    and "toLowerCase d1 = toLowerCase d2"
  shows "cacheKey d1 p1 = cacheKey d2 p2
       \<and> get c t d1 p1 = get c t d2 p2
       \<and> put c t d1 p1 mac pre ex = put c t d2 p2 mac pre ex
       \<and> (1 \<le> maxSize c \<longrightarrow>
            (\<exists>cred c'. put c t d1 p1 mac pre ex = Some (cred, c')
               \<and> macaroon cred = mac \<and> preimage cred = pre
               \<and> (\<forall>t'. (case expiresAt cred of None \<Rightarrow> True | Some e \<Rightarrow> t' < e) \<longrightarrow>
                      fst (get c' t' d2 p2) = Some cred)))"
proof -
  have key: "cacheKey d1 p1 = cacheKey d2 p2"
    using assms by (rule cacheKey_cong)
  have same: "get c t d1 p1 = get c t d2 p2" "put c t d1 p1 mac pre ex = put c t d2 p2 mac pre ex"
    by (simp_all add: get_def put_def key)
  have stored: "\<exists>cred c'. put c t d1 p1 mac pre ex = Some (cred, c')
               \<and> macaroon cred = mac \<and> preimage cred = pre
               \<and> (\<forall>t'. (case expiresAt cred of None \<Rightarrow> True | Some e \<Rightarrow> t' < e) \<longrightarrow>
                      fst (get c' t' d2 p2) = Some cred)" if "1 \<le> maxSize c"
  proof -
    from put_stores [OF that, of t d1 p1 mac pre ex] obtain cred c'
      where p: "put c t d1 p1 mac pre ex = Some (cred, c')" "macaroon cred = mac"
        "preimage cred = pre" "Map_get (cache c') (cacheKey d1 p1) = Some cred" by blast
    have "fst (get c' t' d2 p2) = Some cred"
      if "case expiresAt cred of None \<Rightarrow> True | Some e \<Rightarrow> t' < e" for t'
      using get_found [of c' d2 p2 cred t'] p(4) that key by simp
    with p show ?thesis by blast
  qed
  from key same stored show ?thesis by blast
qed

theorem cacheKey_groups_sibling_paths_witness:
  "cacheKey ''Example.com'' ''/api/v1/foo'' = ''example.com::/api/v1''
   \<and> cacheKey ''example.COM'' ''/api/v1/bar/7'' = ''example.com::/api/v1''
   \<and> fst (get (snd (the (put cacheTwo 0 ''Example.com'' ''/api/v1/foo'' ''mac1'' ''pre1'' None)))
         5 ''example.COM'' ''/api/v1/bar/7'') = Some credA"
proof -
  have sib: "take 2 (pathParts ''/api/v1/foo'') = take 2 (pathParts ''/api/v1/bar/7'')"
    by (simp add: pathParts_def)
  have dom: "toLowerCase ''Example.com'' = toLowerCase ''example.COM''"
    by (simp add: string_eval)
  from cacheKey_groups_sibling_paths [OF sib dom, of cacheTwo 0 "''mac1''" "''pre1''" None]
  show ?thesis
    by (simp add: cacheTwo_def credA_def cache_eval string_eval)
qed

lemma remdups_snoc: "remdups (h @ [k]) = removeAll k (remdups h) @ [k]"
  by (induction h) auto

lemma Map_delete_fst: "map fst (Map_delete k m) = filter (\<lambda>x. x \<noteq> k) (map fst m)"
  by (simp add: Map_delete_def filter_map o_def)

lemma lastAccessOrder_distinct: "lastAccessOrder m h \<Longrightarrow> distinct (map fst m)"
  by (simp add: lastAccessOrder_def)

lemma lastAccessOrder_delete:
  assumes "lastAccessOrder m h"
  shows "lastAccessOrder (Map_delete k m) h"
proof -
  have "map fst (Map_delete k m) =
        filter (\<lambda>x. x \<noteq> k) (filter (\<lambda>x. x \<in> fst ` set m) (remdups h))"
    using assms by (simp add: Map_delete_fst lastAccessOrder_def)
  also have "\<dots> = filter (\<lambda>x. x \<in> fst ` set (Map_delete k m)) (remdups h)"
    by (auto simp add: Map_delete_keys intro: filter_cong)
  finally show ?thesis by (simp add: lastAccessOrder_def)
qed

lemma lastAccessOrder_touch:
  assumes "lastAccessOrder m h"
  shows "lastAccessOrder (Map_set k v (Map_delete k m)) (h @ [k])"
proof -
  let ?m = "Map_delete k m"
  from assms have d: "map fst ?m = filter (\<lambda>x. x \<in> fst ` set ?m) (remdups h)"
    using lastAccessOrder_delete [of m h k] by (simp add: lastAccessOrder_def)
  have keys: "fst ` set (?m @ [(k, v)]) = insert k (fst ` set ?m)" by auto
  have absent: "k \<notin> fst ` set ?m" by (simp add: Map_delete_keys)
  have "filter (\<lambda>x. x \<in> insert k (fst ` set ?m)) (removeAll k (remdups h)) =
        filter (\<lambda>x. x \<in> fst ` set ?m) (remdups h)"
    using absent by (auto simp add: removeAll_filter_not_eq intro: filter_cong)
  then have "map fst (?m @ [(k, v)]) =
        filter (\<lambda>x. x \<in> fst ` set (?m @ [(k, v)])) (remdups (h @ [k]))"
    using d by (simp only: keys remdups_snoc) simp
  then show ?thesis by (simp only: Map_set_after_delete lastAccessOrder_def)
qed

lemma lastAccessOrder_evict:
  "evict n m = Some m' \<Longrightarrow> lastAccessOrder m h \<Longrightarrow> lastAccessOrder m' h"
proof (induction n m rule: evict.induct)
  case (1 maxSz)
  then show ?case by (simp split: if_splits)
next
  case (2 maxSz e es)
  show ?case
  proof (cases "int (length (e # es)) > maxSz")
    case True
    with 2 show ?thesis by (simp add: lastAccessOrder_delete)
  next
    case False
    with 2 show ?thesis by simp
  qed
qed

lemma lastAccessOrder_applyOp:
  assumes "applyOp (c, h) x = Some (c', h')" and "lastAccessOrder (cache c) h"
  shows "lastAccessOrder (cache c') h'"
proof (cases x)
  case (GetOp now d p)
  with assms show ?thesis
    by (auto simp add: get_def Let_def lastAccessOrder_delete lastAccessOrder_touch
        split: option.splits if_splits)
next
  case (PutOp now d p mac pre ex)
  with assms(1) obtain cr where p: "put c now d p mac pre ex = Some (cr, c')"
    and h': "h' = h @ [cacheKey d p]"
    by (auto split: option.splits)
  from p obtain v where "evict (maxSize c) (Map_set (cacheKey d p) v (Map_delete (cacheKey d p) (cache c)))
      = Some (cache c')"
    by (auto simp add: put_def Let_def split: option.splits)
  then have "lastAccessOrder (cache c') (h @ [cacheKey d p])"
    by (rule lastAccessOrder_evict) (rule lastAccessOrder_touch [OF assms(2)])
  with h' show ?thesis by simp
qed

lemma lastAccessOrder_runOps:
  "runOps s xs = Some s' \<Longrightarrow> lastAccessOrder (cache (fst s)) (snd s) \<Longrightarrow>
   lastAccessOrder (cache (fst s')) (snd s')"
proof (induction xs arbitrary: s)
  case Nil
  then show ?case by simp
next
  case (Cons x xs)
  from Cons.prems(1) obtain s1 where s1: "applyOp s x = Some s1" and r: "runOps s1 xs = Some s'"
    by (auto split: option.splits)
  from s1 Cons.prems(2) have "lastAccessOrder (cache (fst s1)) (snd s1)"
    using lastAccessOrder_applyOp [of "fst s" "snd s" x "fst s1" "snd s1"] by simp
  with r show ?case by (rule Cons.IH)
qed

lemma last_access_head:
  "filter P (remdups h) = v # ks \<Longrightarrow>
   \<exists>h1 h2. h = h1 @ v # h2 \<and> v \<notin> set h2 \<and> set ks \<subseteq> set h2"
proof (induction h)
  case Nil
  then show ?case by simp
next
  case (Cons x xs)
  show ?case
  proof (cases "x \<notin> set xs \<and> P x")
    case True
    with Cons.prems have "v = x" and "ks = filter P (remdups xs)" by simp_all
    with True have "x # xs = [] @ v # xs \<and> v \<notin> set xs \<and> set ks \<subseteq> set xs" by auto
    then show ?thesis by blast
  next
    case False
    with Cons.prems have "filter P (remdups xs) = v # ks" by (auto split: if_splits)
    with Cons.IH obtain h1 h2 where "xs = h1 @ v # h2" "v \<notin> set h2" "set ks \<subseteq> set h2"
      by blast
    then have "x # xs = (x # h1) @ v # h2 \<and> v \<notin> set h2 \<and> set ks \<subseteq> set h2" by simp
    then show ?thesis by blast
  qed
qed

text \<open>
  C6. Take any sequence of \<open>put\<close> and \<open>get\<close> calls on a cache that starts empty, and log
  the key of every \<open>put\<close> and of every \<open>get\<close> that returns a credential. When the cache
  then holds as many entries as its capacity (at least 1), a \<open>put\<close> of a key that is not
  cached evicts exactly one entry, the first of the map, and that entry is the least
  recently accessed one: every other cached key has been accessed after the last access
  to the evicted key. In particular a \<open>get\<close> that hits a key, whichever entry it is,
  protects it from the next eviction as long as another key is cached.
\<close>

theorem lru_evicts_least_recently_accessed:
  assumes "cache c0 = []" and "runOps (c0, []) ops = Some (c, h)"
    and "0 < maxSize c" and "int (length (cache c)) = maxSize c"
    and "cacheKey d p \<notin> fst ` set (cache c)"
  shows "\<exists>victim rest cr h1 h2.
           cache c = victim # rest
         \<and> fst victim \<notin> fst ` set rest
         \<and> put c now d p mac pre ex = Some (cr, c\<lparr>cache := rest @ [(cacheKey d p, cr)]\<rparr>)
         \<and> h = h1 @ fst victim # h2 \<and> fst victim \<notin> set h2
         \<and> (\<forall>e \<in> set rest. fst e \<in> set h2)"
proof -
  have "lastAccessOrder (cache (fst (c0, []))) (snd (c0, [] :: string list))"
    using assms(1) by (simp add: lastAccessOrder_def)
  with assms(2) have "lastAccessOrder (cache (fst (c, h))) (snd (c, h))"
    by (rule lastAccessOrder_runOps)
  then have inv: "lastAccessOrder (cache c) h" by simp
  then have dist: "distinct (map fst (cache c))" by (rule lastAccessOrder_distinct)
  from assms(3,4) obtain victim rest where m: "cache c = victim # rest"
    by (cases "cache c") auto
  from put_new_key_full [OF dist assms(4) m assms(5), of now mac pre ex]
  obtain cr where p: "put c now d p mac pre ex = Some (cr, c\<lparr>cache := rest @ [(cacheKey d p, cr)]\<rparr>)"
    by blast
  from inv m have "filter (\<lambda>k. k \<in> fst ` set (cache c)) (remdups h) = fst victim # map fst rest"
    by (simp add: lastAccessOrder_def)
  from last_access_head [OF this]
  obtain h1 h2 where h: "h = h1 @ fst victim # h2" "fst victim \<notin> set h2"
    and sub: "set (map fst rest) \<subseteq> set h2"
    by blast
  from sub have later: "\<forall>e \<in> set rest. fst e \<in> set h2" by auto
  have fresh: "fst victim \<notin> fst ` set rest" using dist m by simp
  from m fresh p h later show ?thesis by blast
qed

theorem lru_evicts_least_recently_accessed_witness:
  "runOps (cacheThree, []) opsABC =
     Some (cacheThree\<lparr>cache := [(''c::/x'', credOf ''m3'' ''p3'' 2), (''b::/x'', credOf ''m2'' ''p2'' 1),
                                (''a::/x'', credOf ''m1'' ''p1'' 0)]\<rparr>,
           [''a::/x'', ''b::/x'', ''c::/x'', ''b::/x'', ''a::/x''])
   \<and> put (cacheThree\<lparr>cache := [(''c::/x'', credOf ''m3'' ''p3'' 2), (''b::/x'', credOf ''m2'' ''p2'' 1),
                                (''a::/x'', credOf ''m1'' ''p1'' 0)]\<rparr>) 5 ''d'' ''/x'' ''m4'' ''p4'' None =
     Some (credOf ''m4'' ''p4'' 5,
           cacheThree\<lparr>cache := [(''b::/x'', credOf ''m2'' ''p2'' 1), (''a::/x'', credOf ''m1'' ''p1'' 0),
                                (''d::/x'', credOf ''m4'' ''p4'' 5)]\<rparr>)"
proof -
  let ?c = "cacheThree\<lparr>cache := [(''c::/x'', credOf ''m3'' ''p3'' 2), (''b::/x'', credOf ''m2'' ''p2'' 1),
                                (''a::/x'', credOf ''m1'' ''p1'' 0)]\<rparr>"
  have k: "cacheKey ''a'' ''/x'' = ''a::/x''" "cacheKey ''b'' ''/x'' = ''b::/x''"
    "cacheKey ''c'' ''/x'' = ''c::/x''" "cacheKey ''d'' ''/x'' = ''d::/x''"
    by (simp_all add: cacheKey_def pathParts_def string_eval)
  have run: "runOps (cacheThree, []) opsABC =
      Some (?c, [''a::/x'', ''b::/x'', ''c::/x'', ''b::/x'', ''a::/x''])"
    by (simp add: opsABC_def cacheThree_def credOf_def put_def get_def k Map_get_def Map_set_def
        Map_delete_def Let_def)
  have h: "cache cacheThree = []" "0 < maxSize ?c" "int (length (cache ?c)) = maxSize ?c"
    "cacheKey ''d'' ''/x'' \<notin> fst ` set (cache ?c)"
    by (simp_all add: cacheThree_def k)
  from lru_evicts_least_recently_accessed [OF h(1) run h(2,3,4), of 5 "''m4''" "''p4''" None]
  obtain victim rest cr where "cache ?c = victim # rest"
    "put ?c 5 ''d'' ''/x'' ''m4'' ''p4'' None = Some (cr, ?c\<lparr>cache := rest @ [(cacheKey ''d'' ''/x'', cr)]\<rparr>)"
    by blast
  then have "map fst (cache (snd (the (put ?c 5 ''d'' ''/x'' ''m4'' ''p4'' None)))) =
      [''b::/x'', ''a::/x'', ''d::/x'']"
    by (auto simp add: k)
  moreover have "put ?c 5 ''d'' ''/x'' ''m4'' ''p4'' None =
     Some (credOf ''m4'' ''p4'' 5,
           cacheThree\<lparr>cache := [(''b::/x'', credOf ''m2'' ''p2'' 1), (''a::/x'', credOf ''m1'' ''p1'' 0),
                                (''d::/x'', credOf ''m4'' ''p4'' 5)]\<rparr>)"
    by (simp add: cacheThree_def credOf_def put_def k Map_set_def Map_delete_def Let_def)
  ultimately show ?thesis using run by simp
qed

section \<open>Invoice amount extraction: lemmas\<close>

lemmas char_tables = upperAZ_def lowerAZ_def upperLatin1_def lowerLatin1_def

lemma lowerChar_fix: "c \<notin> set (upperAZ @ upperLatin1) \<Longrightarrow> lowerChar c = c"
  by (simp add: lowerChar_def char_tables)

lemma lowerChar_range: "lowerChar c = c \<or> lowerChar c \<in> set (lowerAZ @ lowerLatin1)"
  by (simp add: lowerChar_def char_tables)

lemma lower_not_upper: "c \<in> set lowerAZ \<Longrightarrow> c \<notin> set (upperAZ @ upperLatin1)"
  by (auto simp add: char_tables)

lemma digit_not_upper: "isDigit c \<Longrightarrow> c \<notin> set (upperAZ @ upperLatin1)"
  by (auto simp add: char_tables isDigit_def)

lemma digit_not_lower: "isDigit c \<Longrightarrow> c \<notin> set (lowerAZ @ lowerLatin1)"
  by (auto simp add: char_tables isDigit_def)

lemma space_not_upper: "isSpace c \<Longrightarrow> c \<notin> set (upperAZ @ upperLatin1)"
  by (auto simp add: char_tables isSpace_def)

lemma one_is_digit: "isDigit (CHR ''1'')"
  by (simp add: isDigit_def)

lemma lowerChar_lower: "c \<in> set lowerAZ \<Longrightarrow> lowerChar c = c"
  by (rule lowerChar_fix) (rule lower_not_upper)

lemma lowerChar_digit: "isDigit c \<Longrightarrow> lowerChar c = c"
  by (rule lowerChar_fix) (rule digit_not_upper)

lemma lowerChar_eq_one: "lowerChar c = CHR ''1'' \<Longrightarrow> c = CHR ''1''"
  using lowerChar_range [of c] digit_not_lower [OF one_is_digit] by auto

lemma isAlpha_lower: "c \<in> set lowerAZ \<Longrightarrow> isAlpha c"
  by (simp add: isAlpha_def lowerChar_lower)

lemma lower_not_digit: "c \<in> set lowerAZ \<Longrightarrow> \<not> isDigit c"
  using digit_not_lower [of c] by auto

lemma multiplierOf_letter: "multiplierOf (multiplierLetter m) = Some m"
  by (cases m) (simp_all add: multiplierOf_def lowerChar_def char_tables)

lemma multiplierLetter_lower: "multiplierLetter m \<in> set lowerAZ"
  by (cases m) (simp_all add: lowerAZ_def)

lemma multiplierOf_digit: "isDigit c \<Longrightarrow> multiplierOf c = None"
  by (auto simp add: multiplierOf_def lowerChar_digit isDigit_def)

lemma multiplierOf_Some_lower: "c \<in> set lowerAZ \<Longrightarrow> (multiplierOf c \<noteq> None) = (c \<in> set ''munp'')"
  by (simp add: multiplierOf_def lowerChar_lower)

lemma multiplierOf_lowerChar: "(multiplierOf c = None) = (lowerChar c \<notin> set ''munp'')"
  by (simp add: multiplierOf_def)

lemma space_not_l: "lowerChar c = CHR ''l'' \<Longrightarrow> \<not> isSpace c"
  using lowerChar_fix [OF space_not_upper, of c] by (auto simp add: isSpace_def)

text \<open>The pattern after the network.\<close>

lemma matchMultiplierOne_no_one: "CHR ''1'' \<notin> set s \<Longrightarrow> matchMultiplierOne s = None"
  by (cases s rule: matchMultiplierOne.cases) (auto split: option.splits)

lemma matchMultiplierOne_one: "matchMultiplierOne (CHR ''1'' # d) = Some None"
  by (cases d) (simp_all add: multiplierOf_digit one_is_digit)

lemma matchMultiplierOne_letter:
  "matchMultiplierOne (multiplierLetter m # CHR ''1'' # d) = Some (Some m)"
  by (simp add: multiplierOf_letter)

lemma matchAfterNetwork_letter_first:
  "\<not> isDigit c \<Longrightarrow> matchAfterNetwork (c # s) =
     (case matchMultiplierOne (c # s) of Some m \<Rightarrow> Some (None, m) | None \<Rightarrow> None)"
  by (simp add: matchAfterNetwork_def)

lemma matchAmount_with_multiplier:
  assumes "ds \<noteq> []"
  shows "matchAmount (length ds) (ds @ multiplierLetter m # CHR ''1'' # d) = Some (Some ds, Some m)"
proof -
  from assms obtain j where j: "length ds = Suc j" by (cases ds) auto
  have "drop (Suc j) (ds @ multiplierLetter m # CHR ''1'' # d) = multiplierLetter m # CHR ''1'' # d"
    using j by simp
  moreover have "take (Suc j) (ds @ multiplierLetter m # CHR ''1'' # d) = ds"
    using j by simp
  ultimately show ?thesis
    unfolding j by (simp add: matchMultiplierOne_letter del: matchMultiplierOne.simps)
qed

lemma matchAmount_without_multiplier:
  assumes "ds \<noteq> []" and "CHR ''1'' \<notin> set d"
  shows "matchAmount (length ds + i) (ds @ CHR ''1'' # d) = Some (Some ds, None)"
proof (induction i)
  case 0
  from assms obtain j where j: "length ds = Suc j" by (cases ds) auto
  have "drop (Suc j) (ds @ CHR ''1'' # d) = CHR ''1'' # d" using j by simp
  moreover have "take (Suc j) (ds @ CHR ''1'' # d) = ds" using j by simp
  ultimately show ?case
    using j by (simp add: matchMultiplierOne_one del: matchMultiplierOne.simps)
next
  case (Suc i)
  have "drop (Suc (length ds + i)) (ds @ CHR ''1'' # d) = drop i d" by simp
  moreover have "CHR ''1'' \<notin> set (drop i d)"
    using assms(2) by (meson in_set_dropD)
  ultimately have "matchMultiplierOne (drop (Suc (length ds + i)) (ds @ CHR ''1'' # d)) = None"
    by (simp add: matchMultiplierOne_no_one)
  with Suc show ?case by simp
qed

lemma matchAmount_no_digits:
  assumes "CHR ''1'' \<notin> set d"
  shows "matchAmount k (CHR ''1'' # d) = Some (None, None)"
proof (induction k)
  case 0
  show ?case by (simp add: matchMultiplierOne_one del: matchMultiplierOne.simps)
next
  case (Suc k)
  have "CHR ''1'' \<notin> set (drop k d)" using assms by (meson in_set_dropD)
  then have "matchMultiplierOne (drop (Suc k) (CHR ''1'' # d)) = None"
    by (simp add: matchMultiplierOne_no_one)
  with Suc show ?case by simp
qed

lemma matchAfterNetwork_amount:
  assumes "ds \<noteq> []" and "\<forall>c \<in> set ds. isDigit c" and "mu = None \<longrightarrow> CHR ''1'' \<notin> set d"
  shows "matchAfterNetwork (ds @ multiplierText mu @ CHR ''1'' # d) = Some (Some ds, mu)"
proof (cases mu)
  case None
  with assms(3) have d: "CHR ''1'' \<notin> set d" by simp
  have "takeWhile isDigit (ds @ CHR ''1'' # d) = ds @ takeWhile isDigit (CHR ''1'' # d)"
    using assms(2) by (simp add: takeWhile_append2)
  then have "length (takeWhile isDigit (ds @ CHR ''1'' # d)) =
      length ds + length (takeWhile isDigit (CHR ''1'' # d))" by simp
  then show ?thesis
    using None matchAmount_without_multiplier [OF assms(1) d]
    by (simp add: matchAfterNetwork_def multiplierText_def)
next
  case (Some m)
  have "\<not> isDigit (multiplierLetter m)"
    by (simp add: lower_not_digit multiplierLetter_lower)
  then have "takeWhile isDigit (ds @ multiplierLetter m # CHR ''1'' # d) = ds"
    using assms(2) by (simp add: takeWhile_append2)
  then show ?thesis
    using Some matchAmount_with_multiplier [OF assms(1)]
    by (simp add: matchAfterNetwork_def multiplierText_def)
qed

lemma matchAfterNetwork_no_amount:
  assumes "CHR ''1'' \<notin> set d"
  shows "matchAfterNetwork (CHR ''1'' # d) = Some (None, None)"
  by (simp add: matchAfterNetwork_def matchAmount_no_digits [OF assms])


lemma one_not_lower: "CHR ''1'' \<notin> set lowerAZ"
  by (simp add: lowerAZ_def)

lemma matchAfterNetwork_inside_network:
  assumes "c \<in> set lowerAZ" and "s \<noteq> []"
    and "\<not> (c \<in> set ''munp'' \<and> hd s = CHR ''1'')"
  shows "matchAfterNetwork (c # s) = None"
proof -
  from assms(2) obtain y rest where s: "s = y # rest" by (cases s) auto
  have c1: "c \<noteq> CHR ''1''" using assms(1) one_not_lower by auto
  have "matchMultiplierOne (c # y # rest) = None"
  proof (cases "multiplierOf c")
    case None
    then show ?thesis using c1 by simp
  next
    case (Some m)
    then have "c \<in> set ''munp''" using multiplierOf_Some_lower [OF assms(1)] by simp
    with assms(3) s have "y \<noteq> CHR ''1''" by auto
    with Some show ?thesis by simp
  qed
  then show ?thesis
    using s by (simp add: matchAfterNetwork_letter_first lower_not_digit [OF assms(1)])
qed

lemma matchNetwork_skip:
  assumes "net \<noteq> []" and "\<forall>c \<in> set net. c \<in> set lowerAZ" and "R \<noteq> []"
    and "\<not> (2 \<le> length net \<and> last net \<in> set ''munp'' \<and> hd R = CHR ''1'')"
    and "matchAfterNetwork R = Some g"
  shows "matchNetwork (net @ R) = Some g"
  using assms
proof (induction net rule: list_nonempty_induct)
  case (single c)
  then show ?case by (simp add: isAlpha_lower)
next
  case (cons c cs)
  from cons.hyps obtain c' cs' where cs: "cs = c' # cs'" by (cases cs) auto
  have c'low: "c' \<in> set lowerAZ" using cons.prems(1) cs by simp
  have "matchAfterNetwork (c' # (cs' @ R)) = None"
  proof (rule matchAfterNetwork_inside_network [OF c'low])
    show "cs' @ R \<noteq> []" using cons.prems(2) by simp
    show "\<not> (c' \<in> set ''munp'' \<and> hd (cs' @ R) = CHR ''1'')"
    proof (cases cs')
      case Nil
      then show ?thesis using cons.prems(3) cs by simp
    next
      case (Cons y ys)
      then have "y \<in> set lowerAZ" using cons.prems(1) cs by simp
      then have "y \<noteq> CHR ''1''" using one_not_lower by auto
      then show ?thesis using Cons by simp
    qed
  qed
  then have none: "matchAfterNetwork (cs @ R) = None" using cs by simp
  have weaker: "\<not> (2 \<le> length cs \<and> last cs \<in> set ''munp'' \<and> hd R = CHR ''1'')"
    using cons.prems(3) cons.hyps by auto
  have "matchNetwork (cs @ R) = Some g"
    using cons.IH cons.prems(1,2,4) weaker by simp
  then show ?case using none cons.prems(1) by (simp add: isAlpha_lower)
qed

lemma matchNetwork_no_amount:
  assumes "net \<noteq> []" and "\<forall>c \<in> set net. c \<in> set lowerAZ" and "CHR ''1'' \<notin> set d"
  shows "\<exists>m. matchNetwork (net @ CHR ''1'' # d) = Some (None, m)"
  using assms
proof (induction net rule: list_nonempty_induct)
  case (single c)
  then show ?case by (simp add: isAlpha_lower matchAfterNetwork_no_amount)
next
  case (cons c cs)
  from cons.hyps obtain c' cs' where cs: "cs = c' # cs'" by (cases cs) auto
  have "\<not> isDigit c'" using cons.prems(1) cs by (simp add: lower_not_digit)
  then have after: "matchAfterNetwork (cs @ CHR ''1'' # d) =
      (case matchMultiplierOne (cs @ CHR ''1'' # d) of Some m \<Rightarrow> Some (None, m) | None \<Rightarrow> None)"
    using cs matchAfterNetwork_letter_first [of c' "cs' @ CHR ''1'' # d"] by simp
  from cons.IH cons.prems obtain m where ih: "matchNetwork (cs @ CHR ''1'' # d) = Some (None, m)"
    by auto
  show ?case
  proof (cases "matchMultiplierOne (cs @ CHR ''1'' # d)")
    case None
    then show ?thesis using after ih cons.prems(1) by (simp add: isAlpha_lower)
  next
    case (Some m')
    then show ?thesis using after cons.prems(1) by (simp add: isAlpha_lower)
  qed
qed

text \<open>Trimming and case folding of an invoice text.\<close>

lemma dropWhile_rev_tail:
  assumes "P \<noteq> []" and "\<not> isSpace (last P)"
  shows "dropWhile isSpace (rev d @ rev P) = dropWhile isSpace (rev d) @ rev P"
proof (cases "\<forall>x \<in> set (rev d). isSpace x")
  case True
  from assms have "dropWhile isSpace (rev P) = rev P"
    by (cases "rev P") (auto simp add: last_rev [symmetric] hd_rev)
  with True show ?thesis by (simp add: dropWhile_append)
next
  case False
  then show ?thesis by (auto simp add: dropWhile_append)
qed

lemma trim_append:
  assumes "P \<noteq> []" and "\<not> isSpace (hd P)" and "\<not> isSpace (last P)"
  shows "trim (P @ d) = P @ rev (dropWhile isSpace (rev d))"
proof -
  from assms(1,2) have "dropWhile isSpace (P @ d) = P @ d" by (cases P) auto
  then show ?thesis
    by (simp add: trim_def dropWhile_rev_tail [OF assms(1,3)])
qed

lemma toLowerCase_fix: "\<forall>c \<in> set s. lowerChar c = c \<Longrightarrow> toLowerCase s = s"
  by (simp add: toLowerCase_def map_idI)

lemma toLowerCase_append: "toLowerCase (s @ t) = toLowerCase s @ toLowerCase t"
  by (simp add: toLowerCase_def)

lemma toLowerCase_no_one: "CHR ''1'' \<notin> set s \<Longrightarrow> CHR ''1'' \<notin> set (toLowerCase s)"
proof
  assume a: "CHR ''1'' \<notin> set s" and "CHR ''1'' \<in> set (toLowerCase s)"
  then obtain x where "x \<in> set s" and "lowerChar x = CHR ''1''"
    by (auto simp add: toLowerCase_def)
  with a lowerChar_eq_one [of x] show False by simp
qed

lemma trimRight_no_one: "CHR ''1'' \<notin> set s \<Longrightarrow> CHR ''1'' \<notin> set (rev (dropWhile isSpace (rev s)))"
  by (metis set_dropWhileD set_rev)

lemma BOLT11_RE_exec_ln: "BOLT11_RE_exec (''ln'' @ s) = matchNetwork s"
  by (simp add: BOLT11_RE_exec_def lowerChar_def char_tables)

lemma toLowerCase_lower: "\<forall>c \<in> set s. isAlpha c \<Longrightarrow> \<forall>c \<in> set (toLowerCase s). c \<in> set lowerAZ"
  by (simp add: toLowerCase_def isAlpha_def)

lemma toLowerCase_digits: "\<forall>c \<in> set ds. isDigit c \<Longrightarrow> toLowerCase ds = ds"
  by (rule toLowerCase_fix) (simp add: lowerChar_digit)

lemma trim_leading:
  assumes "\<forall>c \<in> set ws. isSpace c"
  shows "trim (ws @ s) = trim s"
proof -
  from assms have "dropWhile isSpace (ws @ s) = dropWhile isSpace s"
    by (intro dropWhile_append2) simp
  then show ?thesis by (simp add: trim_def)
qed

lemma normalize_invoice:
  assumes "\<forall>c \<in> set ws. isSpace c" and "toLowerCase pre = ''ln''"
  shows "toLowerCase (trim (ws @ pre @ mid @ ''1'' @ d)) =
           ''ln'' @ toLowerCase mid @ ''1'' @ toLowerCase (rev (dropWhile isSpace (rev d)))"
proof -
  from assms(2) obtain a b where pre: "pre = [a, b]" and a: "lowerChar a = CHR ''l''"
    by (auto simp add: toLowerCase_def)
  let ?P = "pre @ mid @ ''1''"
  have "?P \<noteq> []" "\<not> isSpace (hd ?P)" "\<not> isSpace (last ?P)"
    using pre space_not_l [OF a] by (simp_all add: isSpace_def)
  then have t: "trim (?P @ d) = ?P @ rev (dropWhile isSpace (rev d))"
    by (rule trim_append)
  have one: "toLowerCase ''1'' = ''1''"
    by (rule toLowerCase_fix) (simp add: lowerChar_digit one_is_digit)
  have "toLowerCase (trim (ws @ ?P @ d)) =
          (''ln'' @ toLowerCase mid @ ''1'') @ toLowerCase (rev (dropWhile isSpace (rev d)))"
    by (simp only: trim_leading [OF assms(1)] t toLowerCase_append assms(2) one)
  then show ?thesis by (simp only: append_assoc)
qed

lemma amount_of_groups:
  "(case mu of
      Some m \<Rightarrow> (case MULTIPLIERS m of (num, denom) \<Rightarrow> Some (Number ((a * SATS_PER_BTC * num) div denom)))
    | None \<Rightarrow> Some (Number (a * SATS_PER_BTC))) = Some (Number (spec_sats a mu))"
proof (cases mu)
  case None
  then show ?thesis by (simp add: spec_sats_def spec_scale_def SATS_PER_BTC_def)
next
  case (Some m)
  then show ?thesis by (cases m) (simp_all add: spec_sats_def spec_scale_def SATS_PER_BTC_def)
qed

lemma extractAmountSats_amount:
  assumes ws: "\<forall>c \<in> set ws. isSpace c" and pre: "toLowerCase pre = ''ln''"
    and net: "net \<noteq> []" "\<forall>c \<in> set net. isAlpha c"
    and ds: "ds \<noteq> []" "\<forall>c \<in> set ds. isDigit c"
    and mt: "toLowerCase mt = multiplierText mu"
    and sep: "\<not> (2 \<le> length net \<and> multiplierOf (last net) \<noteq> None \<and> hd ds = CHR ''1'')"
    and d: "mu = None \<longrightarrow> CHR ''1'' \<notin> set d"
  shows "extractAmountSats (ws @ pre @ net @ ds @ mt @ ''1'' @ d) =
           Some (Number (spec_sats (BigInt ds) mu))"
proof -
  let ?net = "toLowerCase net"
  let ?d = "toLowerCase (rev (dropWhile isSpace (rev d)))"
  let ?R = "ds @ multiplierText mu @ CHR ''1'' # ?d"
  have body: "toLowerCase (net @ ds @ mt) = ?net @ ds @ multiplierText mu"
    by (simp only: toLowerCase_append toLowerCase_digits [OF ds(2)] mt)
  have "toLowerCase (trim (ws @ pre @ (net @ ds @ mt) @ ''1'' @ d)) =
          ''ln'' @ toLowerCase (net @ ds @ mt) @ ''1'' @ ?d"
    by (rule normalize_invoice [OF ws pre])
  then have norm: "toLowerCase (trim (ws @ pre @ net @ ds @ mt @ ''1'' @ d)) = ''ln'' @ ?net @ ?R"
    by (simp add: body)
  have net': "?net \<noteq> []" "\<forall>c \<in> set ?net. c \<in> set lowerAZ"
    using net toLowerCase_lower [of net] by (simp_all add: toLowerCase_def)
  have d': "mu = None \<longrightarrow> CHR ''1'' \<notin> set ?d"
  proof
    assume "mu = None"
    with d have "CHR ''1'' \<notin> set d" by simp
    then show "CHR ''1'' \<notin> set ?d"
      by (intro toLowerCase_no_one trimRight_no_one)
  qed
  have after: "matchAfterNetwork ?R = Some (Some ds, mu)"
    by (rule matchAfterNetwork_amount [OF ds d'])
  have last: "last ?net = lowerChar (last net)"
    using net(1) by (simp add: toLowerCase_def last_map)
  have "hd ?R = hd ds" using ds(1) by simp
  with sep last have sep': "\<not> (2 \<le> length ?net \<and> last ?net \<in> set ''munp'' \<and> hd ?R = CHR ''1'')"
    by (simp add: multiplierOf_lowerChar toLowerCase_def)
  have "?R \<noteq> []" using ds(1) by simp
  from matchNetwork_skip [OF net' this sep' after]
  have "BOLT11_RE_exec (''ln'' @ ?net @ ?R) = Some (Some ds, mu)"
    by (simp only: BOLT11_RE_exec_ln)
  moreover have "ws @ pre @ net @ ds @ mt @ ''1'' @ d \<noteq> []" using net(1) by simp
  ultimately show ?thesis
    using norm by (simp add: extractAmountSats_def Let_def amount_of_groups del: append.simps)
qed

lemma extractAmountSats_no_amount:
  assumes ws: "\<forall>c \<in> set ws. isSpace c" and pre: "toLowerCase pre = ''ln''"
    and net: "net \<noteq> []" "\<forall>c \<in> set net. isAlpha c"
    and d: "CHR ''1'' \<notin> set d"
  shows "extractAmountSats (ws @ pre @ net @ ''1'' @ d) = None"
proof -
  let ?net = "toLowerCase net"
  let ?d = "toLowerCase (rev (dropWhile isSpace (rev d)))"
  have norm: "toLowerCase (trim (ws @ pre @ net @ ''1'' @ d)) = ''ln'' @ ?net @ CHR ''1'' # ?d"
    using normalize_invoice [OF ws pre, of net d] by simp
  have net': "?net \<noteq> []" "\<forall>c \<in> set ?net. c \<in> set lowerAZ"
    using net toLowerCase_lower [of net] by (simp_all add: toLowerCase_def)
  have d': "CHR ''1'' \<notin> set ?d"
    by (intro toLowerCase_no_one trimRight_no_one d)
  from matchNetwork_no_amount [OF net' d'] obtain m
    where "matchNetwork (?net @ CHR ''1'' # ?d) = Some (None, m)" by blast
  then have "BOLT11_RE_exec (''ln'' @ ?net @ CHR ''1'' # ?d) = Some (None, m)"
    by (simp only: BOLT11_RE_exec_ln)
  moreover have "ws @ pre @ net @ ''1'' @ d \<noteq> []" using net(1) by simp
  ultimately show ?thesis
    using norm by (simp add: extractAmountSats_def Let_def del: append.simps)
qed

text \<open>
  C2 (amended). Take an invoice made of optional leading white space, \<open>ln\<close>, a network of
  one or more letters, one or more amount digits, an optional multiplier letter, the
  separator \<open>1\<close> and the data, in either case of letters, where the network does not
  both have two or more letters, end in one of the letters \<open>m\<close>, \<open>u\<close>, \<open>n\<close>, \<open>p\<close> and
  stand right before a leading digit \<open>1\<close>, and where, if there is no multiplier letter,
  the data holds no further \<open>1\<close>. For it \<open>extractAmountSats\<close> computes digits x
  100,000,000 x scale-numerator divided by the scale-denominator in arbitrary-precision
  integers, fractions discarded, and returns that amount converted to a double: the
  result is the exact amount whenever it is at most \<open>2^53\<close>, and the nearest double
  otherwise. The same invoice without amount digits and multiplier, with no \<open>1\<close> in its
  data, yields null. The four examples of the claim are the witness.
\<close>

theorem extractAmountSats_exact_up_to_2_53:
  assumes "\<forall>c \<in> set ws. isSpace c" and "toLowerCase pre = ''ln''"
    and "net \<noteq> []" and "\<forall>c \<in> set net. isAlpha c"
    and "ds \<noteq> []" and "\<forall>c \<in> set ds. isDigit c"
    and "toLowerCase mt = multiplierText mu"
    and "\<not> (2 \<le> length net \<and> multiplierOf (last net) \<noteq> None \<and> hd ds = CHR ''1'')"
    and "mu = None \<longrightarrow> CHR ''1'' \<notin> set d"
  shows "extractAmountSats (ws @ pre @ net @ ds @ mt @ ''1'' @ d) =
           Some (Number (spec_sats (BigInt ds) mu))
       \<and> (spec_sats (BigInt ds) mu \<le> 2 ^ 53 \<longrightarrow>
            extractAmountSats (ws @ pre @ net @ ds @ mt @ ''1'' @ d) =
              Some (enat (spec_sats (BigInt ds) mu)))
       \<and> (CHR ''1'' \<notin> set d \<longrightarrow> extractAmountSats (ws @ pre @ net @ ''1'' @ d) = None)"
  using extractAmountSats_amount [OF assms]
    extractAmountSats_no_amount [OF assms(1,2,3,4), of d]
  by (simp add: Number_exact del: append.simps)

lemmas extract_eval = extractAmountSats_def BOLT11_RE_exec_def matchAfterNetwork_def isDigit_def
  isAlpha_def multiplierOf_def BigInt_def digitValue_def SATS_PER_BTC_def Let_def

text \<open>
  C2 as stated fails beyond \<open>2^53\<close>: for 90071992547409930000 pico-units the exact
  amount is \<open>2^53 + 1\<close> satoshis, and the function returns \<open>2^53\<close>.
\<close>

theorem extractAmountSats_rounds_counterexample:
  "extractAmountSats ''lnbc90071992547409930000p1pxxxxxx'' = Some 9007199254740992
   \<and> spec_sats (BigInt ''90071992547409930000'') (Some Pico) = 9007199254740993"
proof -
  have "extractAmountSats ''lnbc90071992547409930000p1pxxxxxx'' = Some (Number 9007199254740993)"
    by (simp add: string_eval extract_eval)
  moreover have "Number 9007199254740993 = 9007199254740992"
    by (simp add: Number_def bitLength.simps Let_def numeral_eq_enat)
  ultimately show ?thesis
    by (simp add: spec_sats_def spec_scale_def BigInt_def digitValue_def)
qed

theorem extractAmountSats_exact_up_to_2_53_witness:
  "extractAmountSats ''lnbc10u1pxxxxxx'' = Some 1000
   \<and> extractAmountSats ''lnbc1m1pxxxxxx'' = Some 100000
   \<and> extractAmountSats ''lnbc1000n1pxxxxxx'' = Some 100
   \<and> extractAmountSats ''lnbc11pxxxxxx'' = Some 100000000
   \<and> extractAmountSats ''lnbc1pxxxxxx'' = None
   \<and> extractAmountSats '' LNBC10U1PXXXXXX'' = Some 1000"
proof -
  have ws: "\<forall>c \<in> set ''''. isSpace c" "\<forall>c \<in> set '' ''. isSpace c"
    by (simp_all add: isSpace_def)
  have pre: "toLowerCase ''ln'' = ''ln''" "toLowerCase ''LN'' = ''ln''"
    by (simp_all add: string_eval)
  have net: "''bc'' \<noteq> []" "\<forall>c \<in> set ''bc''. isAlpha c"
    "''BC'' \<noteq> []" "\<forall>c \<in> set ''BC''. isAlpha c"
    by (simp_all add: isAlpha_def string_eval)
  have mt: "toLowerCase ''u'' = multiplierText (Some Micro)"
    "toLowerCase ''U'' = multiplierText (Some Micro)"
    "toLowerCase ''m'' = multiplierText (Some Milli)"
    "toLowerCase ''n'' = multiplierText (Some Nano)"
    "toLowerCase '''' = multiplierText None"
    by (simp_all add: multiplierText_def string_eval)
  have sep: "\<not> (2 \<le> length ''bc'' \<and> multiplierOf (last ''bc'') \<noteq> None \<and> hd ds = CHR ''1'')"
    "\<not> (2 \<le> length ''BC'' \<and> multiplierOf (last ''BC'') \<noteq> None \<and> hd ds = CHR ''1'')" for ds
    by (simp_all add: multiplierOf_def string_eval)
  have d: "mu = None \<longrightarrow> CHR ''1'' \<notin> set ''pxxxxxx''"
    "mu = None \<longrightarrow> CHR ''1'' \<notin> set ''PXXXXXX''" for mu :: "multiplier option"
    by simp_all
  have micro: "extractAmountSats ''lnbc10u1pxxxxxx'' = Some 1000"
    using extractAmountSats_exact_up_to_2_53 [OF ws(1) pre(1) net(1,2) _ _ mt(1) sep(1) d(1),
        of "''10''"]
    by (simp add: isDigit_def spec_sats_def spec_scale_def BigInt_def
        digitValue_def numeral_eq_enat Number_exact)
  have milli: "extractAmountSats ''lnbc1m1pxxxxxx'' = Some 100000"
    using extractAmountSats_exact_up_to_2_53 [OF ws(1) pre(1) net(1,2) _ _ mt(3) sep(1) d(1),
        of "''1''"]
    by (simp add: isDigit_def spec_sats_def spec_scale_def BigInt_def
        digitValue_def numeral_eq_enat Number_exact)
  have nano: "extractAmountSats ''lnbc1000n1pxxxxxx'' = Some 100"
    using extractAmountSats_exact_up_to_2_53 [OF ws(1) pre(1) net(1,2) _ _ mt(4) sep(1) d(1),
        of "''1000''"]
    by (simp add: isDigit_def spec_sats_def spec_scale_def BigInt_def
        digitValue_def numeral_eq_enat Number_exact)
  have whole: "extractAmountSats ''lnbc11pxxxxxx'' = Some 100000000
      \<and> extractAmountSats ''lnbc1pxxxxxx'' = None"
    using extractAmountSats_exact_up_to_2_53 [OF ws(1) pre(1) net(1,2) _ _ mt(5) sep(1) d(1),
        of "''1''"]
    by (simp add: isDigit_def spec_sats_def spec_scale_def BigInt_def
        digitValue_def numeral_eq_enat Number_exact)
  have upper: "extractAmountSats '' LNBC10U1PXXXXXX'' = Some 1000"
    using extractAmountSats_exact_up_to_2_53 [OF ws(2) pre(2) net(3,4) _ _ mt(2) sep(2) d(2),
        of "''10''"]
    by (simp add: isDigit_def spec_sats_def spec_scale_def BigInt_def
        digitValue_def numeral_eq_enat Number_exact)
  from micro milli nano whole upper show ?thesis by simp
qed

section \<open>The client: lemmas\<close>

lemma findL402Challenge_None_iff:
  "(findL402Challenge hdrs = None) =
     (case wwwAuthenticate hdrs of
        None \<Rightarrow> True
      | Some h \<Rightarrow> h = [] \<or> (\<exists>err. parseChallenge h = Inl err))"
  by (auto simp add: findL402Challenge_def split: option.splits sum.splits)

lemma check_error_kinds:
  "fst (check b now a domain) = Inl e \<Longrightarrow>
     (\<exists>d. e = DomainNotAllowedError d) \<or> (\<exists>ty lim cur iv. e = BudgetExceededError ty lim cur iv)"
  by (auto simp add: check_fst split: option.splits if_splits)

text \<open>
  C5. For every 402 response whose headers hold no parseable L402/LSAT challenge (the
  \<open>WWW-Authenticate\<close> header is absent, empty, or \<open>parseChallenge\<close> fails on it),
  \<open>findL402Challenge\<close> returns null instead of throwing (and returns null in these cases
  only, for a \<open>Headers\<close> object and for a plain record alike), and \<open>fetch\<close> returns that
  response unchanged after exactly one call of \<open>globalThis.fetch\<close>: the wallet is not
  called, nothing is retried, and of the client only the cache touched by the lookup
  may differ.
\<close>

theorem no_challenge_passthrough:
  assumes "status response = 402"
    and "globalFetch w 0 (firstRequest w cl parsed init) = Inr response"
    and "case wwwAuthenticate (HeadersObject (response_headers response)) of
           None \<Rightarrow> True
         | Some h \<Rightarrow> h = [] \<or> (\<exists>err. parseChallenge h = Inl err)"
  shows "(findL402Challenge hdrs = None) =
           (case wwwAuthenticate hdrs of
              None \<Rightarrow> True
            | Some h \<Rightarrow> h = [] \<or> (\<exists>err. parseChallenge h = Inl err))
       \<and> findL402Challenge (HeadersObject (response_headers response)) = None
       \<and> fetch w cl parsed init =
           Some (Inr response,
                 cl\<lparr>credentialCache := snd (cacheLookup w cl parsed)\<rparr>,
                 [HttpCall (firstRequest w cl parsed init)])"
proof -
  have none: "findL402Challenge (HeadersObject (response_headers response)) = None"
    using assms(3) by (simp add: findL402Challenge_None_iff)
  then have "fetch w cl parsed init =
           Some (Inr response,
                 cl\<lparr>credentialCache := snd (cacheLookup w cl parsed)\<rparr>,
                 [HttpCall (firstRequest w cl parsed init)])"
    using assms(1,2) by (simp add: fetch_def Let_def)
  with none findL402Challenge_None_iff [of hdrs] show ?thesis by blast
qed

text \<open>
  C1. Whenever the budget controller's \<open>check(amount, domain)\<close> raises an error during
  \<open>fetch\<close> (a 402 response with a challenge whose invoice carries an amount, and a budget
  configured), that error, a \<open>DomainNotAllowedError\<close> or a \<open>BudgetExceededError\<close>, is what
  \<open>fetch\<close> throws, unmodified; the only call made is the first HTTP request, so the
  wallet's \<open>payInvoice\<close> is never invoked, and nothing is added to the spending log.
\<close>

theorem budget_rejection_blocks_payment:
  assumes "budget cl = Some b"
    and "globalFetch w 0 (firstRequest w cl parsed init) = Inr response"
    and "status response = 402"
    and "findL402Challenge (HeadersObject (response_headers response)) = Some ch"
    and "extractAmountSats (challenge_invoice ch) = Some a"
    and "fst (check b (nowCheck w) a (Some (hostname parsed))) = Inl e"
  shows "fetch w cl parsed init =
           Some (Inl (L402 e),
                 cl\<lparr>credentialCache := snd (cacheLookup w cl parsed),
                    budget := Some (snd (check b (nowCheck w) a (Some (hostname parsed))))\<rparr>,
                 [HttpCall (firstRequest w cl parsed init)])
       \<and> (\<forall>res cl' calls invoice. fetch w cl parsed init = Some (res, cl', calls) \<longrightarrow>
             res = Inl (L402 e) \<and> PayInvoice invoice \<notin> set calls
             \<and> spendingLog cl' = spendingLog cl)
       \<and> ((\<exists>d. e = DomainNotAllowedError d)
            \<or> (\<exists>ty lim cur iv. e = BudgetExceededError ty lim cur iv))"
proof -
  obtain r b' where chk: "check b (nowCheck w) a (Some (hostname parsed)) = (r, b')"
    by (cases "check b (nowCheck w) a (Some (hostname parsed))")
  with assms(6) have r: "r = Inl e" by simp
  have "payAndRetry w (cl\<lparr>credentialCache := snd (cacheLookup w cl parsed)\<rparr>) parsed init
          (firstRequest w cl parsed init) ch =
        Some (Inl (L402 e),
              cl\<lparr>credentialCache := snd (cacheLookup w cl parsed), budget := Some b'\<rparr>,
              [HttpCall (firstRequest w cl parsed init)])"
    using assms(1,5) chk r by (simp add: payAndRetry_def Let_def)
  then have f: "fetch w cl parsed init =
           Some (Inl (L402 e),
                 cl\<lparr>credentialCache := snd (cacheLookup w cl parsed),
                    budget := Some (snd (check b (nowCheck w) a (Some (hostname parsed))))\<rparr>,
                 [HttpCall (firstRequest w cl parsed init)])"
    using assms(2,3,4) chk by (simp add: fetch_def Let_def)
  from f check_error_kinds [OF assms(6)] show ?thesis by auto
qed


lemmas challenge_eval = findL402Challenge_def wwwAuthenticate_def Headers_get_def parseChallenge_def
  CHALLENGE_RE_exec_def CHALLENGE_NOQUOTE_RE_exec_def matchChallengeAt_def matchNoQuoteAt_def
  matchScheme_def matchLiteral_def matchQuoted_def matchBareInvoice_def isBare_def

lemmas client_eval = firstRequest_def cacheLookup_def mergeInit_def Headers_new_def Headers_set_def

theorem no_challenge_passthrough_witness:
  "parseChallenge ''Bearer token=abc'' =
     Inl (ChallengeParseError ''Bearer token=abc'' ''no L402/LSAT challenge found'')
   \<and> findL402Challenge (HeadersObject (response_headers response402Plain)) = None
   \<and> fst (the (fetch worldPlain clientTight urlExpensive initEmpty)) = Inr response402Plain
   \<and> snd (snd (the (fetch worldPlain clientTight urlExpensive initEmpty))) =
       [HttpCall \<lparr>request_url = ''https://api.example.com/expensive'',
                  request_init = \<lparr>requestMethod = None, headers = Some [], body = None\<rparr>\<rparr>]"
proof -
  have p: "parseChallenge ''Bearer token=abc'' =
     Inl (ChallengeParseError ''Bearer token=abc'' ''no L402/LSAT challenge found'')"
    by (simp add: challenge_eval string_eval)
  have h1: "status response402Plain = 402"
    by (simp add: response402Plain_def)
  have h2: "globalFetch worldPlain 0 (firstRequest worldPlain clientTight urlExpensive initEmpty) =
      Inr response402Plain"
    by (simp add: worldPlain_def)
  have h3: "case wwwAuthenticate (HeadersObject (response_headers response402Plain)) of
           None \<Rightarrow> True
         | Some h \<Rightarrow> h = [] \<or> (\<exists>err. parseChallenge h = Inl err)"
    using p by (simp add: response402Plain_def wwwAuthenticate_def Headers_get_def string_eval)
  have req: "firstRequest worldPlain clientTight urlExpensive initEmpty =
      \<lparr>request_url = ''https://api.example.com/expensive'',
       request_init = \<lparr>requestMethod = None, headers = Some [], body = None\<rparr>\<rparr>"
    by (simp add: client_eval worldPlain_def clientTight_def urlExpensive_def initEmpty_def
        cache_eval string_eval)
  note w = no_challenge_passthrough [OF h1 h2 h3, of "PlainRecord []", THEN conjunct2]
  from w have none: "findL402Challenge (HeadersObject (response_headers response402Plain)) = None"
    by (rule conjunct1)
  from w have f: "fetch worldPlain clientTight urlExpensive initEmpty =
      Some (Inr response402Plain,
            clientTight\<lparr>credentialCache := snd (cacheLookup worldPlain clientTight urlExpensive)\<rparr>,
            [HttpCall (firstRequest worldPlain clientTight urlExpensive initEmpty)])"
    by (rule conjunct2)
  have "fst (the (fetch worldPlain clientTight urlExpensive initEmpty)) = Inr response402Plain"
    by (simp only: f option.sel fst_conv)
  moreover have "snd (snd (the (fetch worldPlain clientTight urlExpensive initEmpty))) =
       [HttpCall \<lparr>request_url = ''https://api.example.com/expensive'',
                  request_init = \<lparr>requestMethod = None, headers = Some [], body = None\<rparr>\<rparr>]"
    by (simp only: f option.sel snd_conv req)
  ultimately show ?thesis using p none by (intro conjI)
qed

theorem budget_rejection_blocks_payment_witness:
  "findL402Challenge (HeadersObject (response_headers response402L402)) =
     Some \<lparr>challenge_macaroon = ''mac123'', challenge_invoice = ''lnbc10u1ptest''\<rparr>
   \<and> extractAmountSats ''lnbc10u1ptest'' = Some 1000
   \<and> fst (the (fetch worldL402 clientTight urlExpensive initEmpty)) =
       Inl (L402 (BudgetExceededError ''per_request'' 500 0 1000))
   \<and> snd (snd (the (fetch worldL402 clientTight urlExpensive initEmpty))) =
       [HttpCall \<lparr>request_url = ''https://api.example.com/expensive'',
                  request_init = \<lparr>requestMethod = None, headers = Some [], body = None\<rparr>\<rparr>]"
proof -
  let ?b = "\<lparr>maxSatsPerRequest = 500, maxSatsPerHour = 10000, maxSatsPerDay = 50000,
             allowedDomains = None, payments = []\<rparr>"
  let ?ch = "\<lparr>challenge_macaroon = ''mac123'', challenge_invoice = ''lnbc10u1ptest''\<rparr>"
  have h1: "budget clientTight = Some ?b"
    by (simp add: clientTight_def)
  have h2: "globalFetch worldL402 0 (firstRequest worldL402 clientTight urlExpensive initEmpty) =
      Inr response402L402"
    by (simp add: worldL402_def)
  have h3: "status response402L402 = 402"
    by (simp add: response402L402_def)
  have h4: "findL402Challenge (HeadersObject (response_headers response402L402)) = Some ?ch"
    by (simp add: response402L402_def challenge_eval string_eval)
  have amt: "extractAmountSats ''lnbc10u1ptest'' = Some 1000"
    by (simp add: extract_eval string_eval Number_exact numeral_eq_enat)
  then have h5: "extractAmountSats (challenge_invoice ?ch) = Some 1000" by simp
  have h6: "fst (check ?b (nowCheck worldL402) 1000 (Some (hostname urlExpensive))) =
      Inl (BudgetExceededError ''per_request'' 500 0 1000)"
    by (simp add: check_def domainRejected_def)
  have req: "firstRequest worldL402 clientTight urlExpensive initEmpty =
      \<lparr>request_url = ''https://api.example.com/expensive'',
       request_init = \<lparr>requestMethod = None, headers = Some [], body = None\<rparr>\<rparr>"
    by (simp add: client_eval worldL402_def clientTight_def urlExpensive_def initEmpty_def
        cache_eval string_eval)
  from budget_rejection_blocks_payment [OF h1 h2 h3 h4 h5 h6]
  have f: "fetch worldL402 clientTight urlExpensive initEmpty =
      Some (Inl (L402 (BudgetExceededError ''per_request'' 500 0 1000)),
            clientTight\<lparr>credentialCache := snd (cacheLookup worldL402 clientTight urlExpensive),
              budget := Some (snd (check ?b (nowCheck worldL402) 1000 (Some (hostname urlExpensive))))\<rparr>,
            [HttpCall (firstRequest worldL402 clientTight urlExpensive initEmpty)])"
    by (rule conjunct1)
  have "fst (the (fetch worldL402 clientTight urlExpensive initEmpty)) =
       Inl (L402 (BudgetExceededError ''per_request'' 500 0 1000))"
    by (simp only: f option.sel fst_conv)
  moreover have "snd (snd (the (fetch worldL402 clientTight urlExpensive initEmpty))) =
       [HttpCall \<lparr>request_url = ''https://api.example.com/expensive'',
                  request_init = \<lparr>requestMethod = None, headers = Some [], body = None\<rparr>\<rparr>]"
    by (simp only: f option.sel snd_conv req)
  ultimately show ?thesis using h4 amt by (intro conjI)
qed

end
